(* ===== verification/SRS_Prelude.thy ===== *)
theory SRS_Prelude
  imports Main "HOL-Library.Word" "HOL-Library.AList"
begin

text \<open>
  Shared vocabulary of the development: the machine integers of the C++ sources at their
  widths, undefined behaviour as a value, \<^verbatim>\<open>std::vector\<close> indexing, decimal output as
  \<^verbatim>\<open>std::ostream\<close> prints it, and the reachability principle every state machine of the
  development uses. Integer conversions follow C++17 on the supported compilers: narrowing
  to a signed type is reduction modulo the width.
\<close>

section \<open>Collections\<close>

named_theorems srs_defs \<open>definitions of operations, unfolded by the functional lemmas\<close>
named_theorems srs_inv \<open>preservation facts for the invariants of the components\<close>
named_theorems srs_view \<open>what a query returns after an operation\<close>

section \<open>Machine integers\<close>

type_synonym u8 = "8 word"
type_synonym i8 = "8 word"
type_synonym u32 = "32 word"
type_synonym i32 = "32 word"
type_synonym pid_t = "32 word"

text \<open>
  The conversion \<^verbatim>\<open>static_cast<int8_t>(n)\<close> of a \<^verbatim>\<open>size_t\<close>, and the conversion
  \<^verbatim>\<open>static_cast<size_t>(c)\<close> of an \<^verbatim>\<open>int8_t\<close>, which sign-extends to 64 bits.
\<close>

definition i8_of_size :: "nat \<Rightarrow> i8" where
  "i8_of_size n = word_of_nat n"

definition size_of_i8 :: "i8 \<Rightarrow> nat" where
  "size_of_i8 c = nat (sint c mod 2 ^ 64)"

lemma sint_i8_lower: "- 128 \<le> sint (c :: i8)"
  using sint_ge [of c] by simp

lemma sint_i8_upper: "sint (c :: i8) \<le> 127"
  using sint_lt [of c] by simp

lemma sint_i8_succ: "sint (c + 1 :: i8) = (if sint c = 127 then - 128 else sint c + 1)"
proof -
  have eq: "sint (c + 1) = signed_take_bit 7 (sint c + 1)"
    by (simp add: sint_word_ariths)
  show ?thesis
  proof (cases "sint c = 127")
    case True
    then show ?thesis by (simp add: eq)
  next
    case False
    with sint_i8_lower [of c] sint_i8_upper [of c]
    have "signed_take_bit 7 (sint c + 1) = sint c + 1"
      by (intro signed_take_bit_int_eq_self) auto
    with False show ?thesis by (simp add: eq)
  qed
qed

lemma sint_i8_of_size: "sint (i8_of_size n) = (int n + 128) mod 256 - 128"
proof -
  have "sint (i8_of_size n) = signed_take_bit 7 (int n)"
    by (simp add: i8_of_size_def signed_of_nat)
  also have "\<dots> = (int n + 128) mod 256 - 128"
    by (simp add: signed_take_bit_eq_take_bit_shift take_bit_eq_mod)
  finally show ?thesis .
qed

lemma sint_i8_of_size_small: "n \<le> 127 \<Longrightarrow> sint (i8_of_size n) = int n"
  by (simp add: sint_i8_of_size)

lemma sint_i8_of_size_128: "sint (i8_of_size 128) = - 128"
  by (simp add: sint_i8_of_size)

lemma size_of_i8_nonneg: "0 \<le> sint c \<Longrightarrow> size_of_i8 c = nat (sint c)"
  using sint_i8_upper [of c] by (simp add: size_of_i8_def)

lemma size_of_i8_neg: "sint c < 0 \<Longrightarrow> size_of_i8 c = nat (2 ^ 64 + sint c)"
proof -
  assume neg: "sint c < 0"
  with sint_i8_lower [of c] have "(2 ^ 64 + sint c) mod 2 ^ 64 = 2 ^ 64 + sint c"
    by (intro mod_pos_pos_trivial) auto
  then have "sint c mod 2 ^ 64 = 2 ^ 64 + sint c" by simp
  then show ?thesis by (simp add: size_of_i8_def)
qed

lemma i8_eq_iff: "(a :: i8) = b \<longleftrightarrow> sint a = sint b"
proof
  assume "sint a = sint b"
  then have "(word_of_int (sint a) :: i8) = word_of_int (sint b)" by simp
  then show "a = b" by simp
qed simp

section \<open>Undefined behaviour as a value\<close>

text \<open>
  An operation whose C++ text can run into undefined behaviour returns a sum: \<open>Inl\<close> names the
  undefined access, \<open>Inr\<close> carries the result.
\<close>

datatype cxx_error =
    VectorOutOfRange   \<comment> \<open>\<^verbatim>\<open>operator[]\<close> of a \<^verbatim>\<open>std::vector\<close> past its end\<close>
  | DanglingIterator   \<comment> \<open>use of an iterator whose element has been erased\<close>
  | DataRace           \<comment> \<open>unsynchronised access while another thread writes\<close>

type_synonym 'a result = "cxx_error + 'a"

definition bind_result :: "'a result \<Rightarrow> ('a \<Rightarrow> 'b result) \<Rightarrow> 'b result" where
  "bind_result r f = (case r of Inl e \<Rightarrow> Inl e | Inr a \<Rightarrow> f a)"

lemma bind_result_simps [simp]:
  "bind_result (Inl e) f = Inl e"
  "bind_result (Inr a) f = f a"
  by (simp_all add: bind_result_def)

lemma bind_result_Inr_iff:
  "bind_result r f = Inr b \<longleftrightarrow> (\<exists>a. r = Inr a \<and> f a = Inr b)"
  by (cases r) auto

lemma bind_result_assoc:
  "bind_result (bind_result r f) g = bind_result r (\<lambda>a. bind_result (f a) g)"
  by (cases r) auto

definition vec_at :: "'a list \<Rightarrow> nat \<Rightarrow> 'a result" where
  "vec_at xs i = (if i < length xs then Inr (xs ! i) else Inl VectorOutOfRange)"

lemma vec_at_Inr [simp]: "i < length xs \<Longrightarrow> vec_at xs i = Inr (xs ! i)"
  by (simp add: vec_at_def)

lemma vec_at_Inl [simp]: "\<not> i < length xs \<Longrightarrow> vec_at xs i = Inl VectorOutOfRange"
  by (simp add: vec_at_def)

section \<open>Search loops\<close>

text \<open>A loop that sets a flag at every element with the property, and never resets it.\<close>

lemma fold_any: "fold (\<lambda>x flag. if P x then True else flag) xs b \<longleftrightarrow> b \<or> (\<exists>x \<in> set xs. P x)"
  by (induction xs arbitrary: b) auto

section \<open>Decimal output\<close>

definition digit_char :: "nat \<Rightarrow> char" where
  "digit_char d = char_of (48 + d)"

fun show_nat :: "nat \<Rightarrow> string" where
  "show_nat n = (if n < 10 then [digit_char n] else show_nat (n div 10) @ [digit_char (n mod 10)])"

declare show_nat.simps [simp del]

definition show_int :: "int \<Rightarrow> string" where
  "show_int i = (if i < 0 then CHR ''-'' # show_nat (nat (- i)) else show_nat (nat i))"

section \<open>Reachability\<close>

text \<open>
  A state machine is given by its initial states and its labelled steps; a property that holds
  initially and is kept by every step from a reachable state holds in every reachable state.
\<close>

inductive reachable :: "('s \<Rightarrow> bool) \<Rightarrow> ('s \<Rightarrow> 'l \<Rightarrow> 's \<Rightarrow> bool) \<Rightarrow> 's \<Rightarrow> bool"
  for init step where
  reachable_init: "init s \<Longrightarrow> reachable init step s"
| reachable_step: "reachable init step s \<Longrightarrow> step s l t \<Longrightarrow> reachable init step t"

locale transition_system =
  fixes init :: "'s \<Rightarrow> bool"
    and step :: "'s \<Rightarrow> 'l \<Rightarrow> 's \<Rightarrow> bool"
    and inv :: "'s \<Rightarrow> bool"
  assumes inv_init: "init s \<Longrightarrow> inv s"
    and inv_step: "inv s \<Longrightarrow> step s l t \<Longrightarrow> inv t"
begin

lemma reachable_inv: "reachable init step s \<Longrightarrow> inv s"
  by (induction rule: reachable.induct) (auto intro: inv_init inv_step)

lemma reachable_imp: "reachable init step s \<Longrightarrow> (\<And>t. inv t \<Longrightarrow> P t) \<Longrightarrow> P s"
  by (blast dest: reachable_inv)

end

text \<open>
  A more detailed machine implements a coarser one if each of its steps, seen through the
  abstraction, is a step of the coarser machine or no change at all.
\<close>

locale stuttering_refinement = transition_system init step inv
  for init :: "'s \<Rightarrow> bool" and step :: "'s \<Rightarrow> 'l \<Rightarrow> 's \<Rightarrow> bool" and inv :: "'s \<Rightarrow> bool" +
  fixes coarse_init :: "'a \<Rightarrow> bool"
    and coarse_step :: "'a \<Rightarrow> 'k \<Rightarrow> 'a \<Rightarrow> bool"
    and abs :: "'s \<Rightarrow> 'a"
  assumes abs_init: "init s \<Longrightarrow> coarse_init (abs s)"
    and abs_step: "inv s \<Longrightarrow> step s l t \<Longrightarrow> abs t = abs s \<or> (\<exists>k. coarse_step (abs s) k (abs t))"
begin

lemma reachable_abs: "reachable init step s \<Longrightarrow> reachable coarse_init coarse_step (abs s)"
proof (induction rule: reachable.induct)
  case (reachable_init s)
  then show ?case by (auto intro: reachable.reachable_init abs_init)
next
  case (reachable_step s l t)
  from abs_step [OF reachable_inv [OF reachable_step.hyps(1)] reachable_step.hyps(2)] show ?case
    using reachable_step.IH by (auto intro: reachable.reachable_step)
qed

end

section \<open>Sequences of operations and their refinement\<close>

text \<open>
  A sequence of operations, each returning a value and a new state, stops at the first undefined
  behaviour; a specification's operations are total.
\<close>

fun run_ops :: "('o \<Rightarrow> 's \<Rightarrow> ('r \<times> 's) result) \<Rightarrow> 'o list \<Rightarrow> 's \<Rightarrow> ('r list \<times> 's) result" where
  "run_ops exec [] s = Inr ([], s)"
| "run_ops exec (x # xs) s =
     bind_result (exec x s)
       (\<lambda>(r, s'). bind_result (run_ops exec xs s') (\<lambda>(rs, s''). Inr (r # rs, s'')))"

lemma run_ops_append:
  "run_ops exec (xs @ ys) s =
     bind_result (run_ops exec xs s)
       (\<lambda>(rs, s'). bind_result (run_ops exec ys s') (\<lambda>(rs', s''). Inr (rs @ rs', s'')))"
  by (induction exec xs s rule: run_ops.induct)
    (auto simp: bind_result_def split: sum.splits prod.splits)

fun run_spec :: "('o \<Rightarrow> 'a \<Rightarrow> 'r \<times> 'a) \<Rightarrow> 'o list \<Rightarrow> 'a \<Rightarrow> 'r list \<times> 'a" where
  "run_spec exec [] a = ([], a)"
| "run_spec exec (x # xs) a =
     (let (r, a') = exec x a; (rs, a'') = run_spec exec xs a' in (r # rs, a''))"

locale refinement =
  fixes exec :: "'o \<Rightarrow> 's \<Rightarrow> ('r \<times> 's) result"
    and spec :: "'o \<Rightarrow> 'a \<Rightarrow> 'r \<times> 'a"
    and rel :: "'s \<Rightarrow> 'a \<Rightarrow> bool"
    and admissible :: "'o \<Rightarrow> bool"
  assumes refines: "rel s a \<Longrightarrow> admissible x \<Longrightarrow>
    \<exists>s'. exec x s = Inr (fst (spec x a), s') \<and> rel s' (snd (spec x a))"
begin

text \<open>A run of admissible operations is defined, returns what the specification returns, and
  ends in a related state.\<close>

lemma run_refines:
  assumes "rel s a" and "list_all admissible xs"
  shows "\<exists>s'. run_ops exec xs s = Inr (fst (run_spec spec xs a), s') \<and> rel s' (snd (run_spec spec xs a))"
  using assms
proof (induction xs arbitrary: s a)
  case Nil
  then show ?case by simp
next
  case (Cons x xs)
  then obtain s' where s': "exec x s = Inr (fst (spec x a), s')" "rel s' (snd (spec x a))"
    using refines by fastforce
  with Cons obtain s'' where
    "run_ops exec xs s' = Inr (fst (run_spec spec xs (snd (spec x a))), s'')"
    "rel s'' (snd (run_spec spec xs (snd (spec x a))))"
    by fastforce
  with s' show ?case by (auto simp: split_beta Let_def)
qed

end

end
