(* ===== verification/Umap.thy ===== *)
theory Umap
  imports SRS_Prelude
begin

text \<open>
  The \<^verbatim>\<open>std::unordered_map\<close> of the sources (\<^verbatim>\<open>m_MapServiceInfo\<close> of the scheduler and
  \<^verbatim>\<open>m_ServiceToBusName\<close> of the stub): a list of entries in iteration order, with no
  key twice. C++ leaves the iteration order open, so the order of the list is one possible
  order; \<open>umap_eq\<close> relates two lists that hold the same entries, and the clients show that
  what they compute does not depend on the representative (or where it does, that it does).
  The laws the clients rely on are the locale \<open>unordered_map\<close>, interpreted on the list
  operations.
\<close>

type_synonym ('k, 'v) umap = "('k \<times> 'v) list"

definition umap_ok :: "('k, 'v) umap \<Rightarrow> bool" where
  "umap_ok m \<longleftrightarrow> distinct (map fst m)"

text \<open>\<^verbatim>\<open>find\<close>, \<^verbatim>\<open>std::find_if\<close>, \<^verbatim>\<open>emplace\<close> (no effect on a present
  key), \<^verbatim>\<open>m[k] = v\<close>, mutation through an iterator, and \<^verbatim>\<open>erase\<close>.\<close>

definition umap_find :: "('k, 'v) umap \<Rightarrow> 'k \<Rightarrow> 'v option" where
  "umap_find m k = map_of m k"

definition umap_find_if :: "('k \<Rightarrow> 'v \<Rightarrow> bool) \<Rightarrow> ('k, 'v) umap \<Rightarrow> ('k \<times> 'v) option" where
  "umap_find_if P m = find (\<lambda>(k, v). P k v) m"

definition umap_emplace :: "'k \<Rightarrow> 'v \<Rightarrow> ('k, 'v) umap \<Rightarrow> ('k, 'v) umap" where
  "umap_emplace k v m = (if umap_find m k = None then (k, v) # m else m)"

definition umap_assign :: "'k \<Rightarrow> 'v \<Rightarrow> ('k, 'v) umap \<Rightarrow> ('k, 'v) umap" where
  "umap_assign k v m = AList.update k v m"

definition umap_modify :: "'k \<Rightarrow> ('v \<Rightarrow> 'v) \<Rightarrow> ('k, 'v) umap \<Rightarrow> ('k, 'v) umap" where
  "umap_modify k f m = AList.map_entry k f m"

definition umap_erase :: "'k \<Rightarrow> ('k, 'v) umap \<Rightarrow> ('k, 'v) umap" where
  "umap_erase k m = AList.delete k m"

definition umap_all :: "('k \<Rightarrow> 'v \<Rightarrow> bool) \<Rightarrow> ('k, 'v) umap \<Rightarrow> bool" where
  "umap_all Q m = list_all (\<lambda>(k, v). Q k v) m"

definition umap_eq :: "('k, 'v) umap \<Rightarrow> ('k, 'v) umap \<Rightarrow> bool" where
  "umap_eq m n \<longleftrightarrow> umap_ok m \<and> umap_ok n \<and> set m = set n"

section \<open>The interface\<close>

locale unordered_map =
  fixes ok :: "'m \<Rightarrow> bool"
    and lookup :: "'m \<Rightarrow> 'k \<Rightarrow> 'v option"
    and first_if :: "('k \<Rightarrow> 'v \<Rightarrow> bool) \<Rightarrow> 'm \<Rightarrow> ('k \<times> 'v) option"
    and emplace :: "'k \<Rightarrow> 'v \<Rightarrow> 'm \<Rightarrow> 'm"
    and assign :: "'k \<Rightarrow> 'v \<Rightarrow> 'm \<Rightarrow> 'm"
    and modify :: "'k \<Rightarrow> ('v \<Rightarrow> 'v) \<Rightarrow> 'm \<Rightarrow> 'm"
    and erase :: "'k \<Rightarrow> 'm \<Rightarrow> 'm"
    and every :: "('k \<Rightarrow> 'v \<Rightarrow> bool) \<Rightarrow> 'm \<Rightarrow> bool"
  assumes lookup_emplace:
      "lookup (emplace k v m) = (if lookup m k = None then (lookup m)(k \<mapsto> v) else lookup m)"
    and lookup_assign: "lookup (assign k v m) = (lookup m)(k \<mapsto> v)"
    and lookup_modify: "lookup (modify k f m) = (lookup m)(k := map_option f (lookup m k))"
    and lookup_erase: "lookup (erase k m) = (lookup m)(k := None)"
    and ok_emplace: "ok m \<Longrightarrow> ok (emplace k v m)"
    and ok_assign: "ok m \<Longrightarrow> ok (assign k v m)"
    and ok_modify: "ok m \<Longrightarrow> ok (modify k f m)"
    and ok_erase: "ok m \<Longrightarrow> ok (erase k m)"
    and first_if_SomeD: "ok m \<Longrightarrow> first_if P m = Some (k, v) \<Longrightarrow> lookup m k = Some v \<and> P k v"
    and first_if_NoneD: "first_if P m = None \<Longrightarrow> lookup m k = Some v \<Longrightarrow> \<not> P k v"
    and every_iff: "ok m \<Longrightarrow> every Q m \<longleftrightarrow> (\<forall>k v. lookup m k = Some v \<longrightarrow> Q k v)"
begin

text \<open>A search whose predicate singles out one key is a lookup of that key.\<close>

lemma first_if_unique:
  assumes "ok m" and key: "\<And>k' v. lookup m k' = Some v \<Longrightarrow> P k' v \<longleftrightarrow> k' = k"
  shows "first_if P m = map_option (Pair k) (lookup m k)"
proof (cases "first_if P m")
  case None
  have "lookup m k = None"
  proof (rule ccontr)
    assume "lookup m k \<noteq> None"
    then obtain v where "lookup m k = Some v" by blast
    with first_if_NoneD [OF None] key show False by blast
  qed
  with None show ?thesis by simp
next
  case (Some kv)
  then obtain k' v where kv: "first_if P m = Some (k', v)" by (cases kv) auto
  from first_if_SomeD [OF \<open>ok m\<close> kv] key have "k' = k" "lookup m k = Some v" by blast+
  with kv show ?thesis by simp
qed

text \<open>A property of every entry, and what keeps it.\<close>

lemma everyD: "ok m \<Longrightarrow> every Q m \<Longrightarrow> lookup m k = Some v \<Longrightarrow> Q k v"
  by (simp add: every_iff)

lemma every_emplace: "ok m \<Longrightarrow> every Q m \<Longrightarrow> Q k v \<Longrightarrow> every Q (emplace k v m)"
  by (simp add: every_iff ok_emplace lookup_emplace)

lemma every_assign: "ok m \<Longrightarrow> every Q m \<Longrightarrow> Q k v \<Longrightarrow> every Q (assign k v m)"
  by (simp add: every_iff ok_assign lookup_assign)

lemma every_modify:
  "ok m \<Longrightarrow> every Q m \<Longrightarrow> (\<And>v. lookup m k = Some v \<Longrightarrow> Q k v \<Longrightarrow> Q k (f v)) \<Longrightarrow>
   every Q (modify k f m)"
  by (auto simp: every_iff ok_modify lookup_modify)

lemma every_erase: "ok m \<Longrightarrow> every Q m \<Longrightarrow> every Q (erase k m)"
  by (simp add: every_iff ok_erase lookup_erase)

lemmas every_intros = every_emplace every_assign every_modify every_erase

text \<open>Two operations on different keys commute, up to lookup.\<close>

lemma modify_erase_commute:
  "k \<noteq> l \<Longrightarrow> lookup (modify k f (erase l m)) = lookup (erase l (modify k f m))"
  by (auto simp: lookup_modify lookup_erase)

end

section \<open>The list operations satisfy it\<close>

interpretation um: unordered_map umap_ok umap_find umap_find_if umap_emplace umap_assign
    umap_modify umap_erase umap_all
proof unfold_locales
  fix m :: "('k, 'v) umap" and k v f P Q
  show "umap_find (umap_emplace k v m) =
      (if umap_find m k = None then (umap_find m)(k \<mapsto> v) else umap_find m)"
    by (auto simp: umap_emplace_def umap_find_def)
  show "umap_find (umap_assign k v m) = (umap_find m)(k \<mapsto> v)"
    by (simp add: umap_assign_def umap_find_def AList.update_conv' fun_eq_iff)
  show "umap_find (umap_modify k f m) = (umap_find m)(k := map_option f (umap_find m k))"
    by (auto simp: umap_modify_def umap_find_def AList.map_of_map_entry fun_eq_iff
        split: option.split)
  show "umap_find (umap_erase k m) = (umap_find m)(k := None)"
    by (simp add: umap_erase_def umap_find_def AList.delete_conv' fun_eq_iff)
  show "umap_ok m \<Longrightarrow> umap_ok (umap_emplace k v m)"
    by (auto simp: umap_ok_def umap_emplace_def umap_find_def map_of_eq_None_iff)
  show "umap_ok m \<Longrightarrow> umap_ok (umap_assign k v m)"
    by (simp add: umap_ok_def umap_assign_def AList.distinct_update)
  show "umap_ok m \<Longrightarrow> umap_ok (umap_modify k f m)"
    by (simp add: umap_ok_def umap_modify_def AList.distinct_map_entry)
  show "umap_ok m \<Longrightarrow> umap_ok (umap_erase k m)"
    by (simp add: umap_ok_def umap_erase_def AList.distinct_delete)
  show "umap_ok m \<Longrightarrow> umap_find_if P m = Some (k, v) \<Longrightarrow> umap_find m k = Some v \<and> P k v"
    by (auto simp: umap_find_if_def find_Some_iff umap_find_def umap_ok_def
        intro: map_of_is_SomeI dest: nth_mem)
  show "umap_find_if P m = None \<Longrightarrow> umap_find m k = Some v \<Longrightarrow> \<not> P k v"
    by (auto simp: umap_find_if_def find_None_iff umap_find_def dest: map_of_SomeD)
  show "umap_ok m \<Longrightarrow> umap_all Q m \<longleftrightarrow> (\<forall>k v. umap_find m k = Some v \<longrightarrow> Q k v)"
    by (auto simp: umap_all_def list_all_iff umap_find_def umap_ok_def)
qed

declare um.lookup_emplace [srs_view] um.lookup_assign [srs_view] um.lookup_modify [srs_view]
  um.lookup_erase [srs_view]

declare um.ok_emplace [srs_inv] um.ok_assign [srs_inv] um.ok_modify [srs_inv] um.ok_erase [srs_inv]

lemma umap_ok_Nil [simp, srs_inv]: "umap_ok []"
  by (simp add: umap_ok_def)

lemma umap_find_Nil [simp]: "umap_find [] k = None"
  by (simp add: umap_find_def)

lemma umap_all_Nil [simp, srs_inv]: "umap_all Q []"
  by (simp add: umap_all_def)

lemma umap_find_set: "umap_ok m \<Longrightarrow> umap_find m k = Some v \<longleftrightarrow> (k, v) \<in> set m"
  by (simp add: umap_ok_def umap_find_def)

section \<open>Iteration order\<close>

lemma umap_set_find: "umap_ok m \<Longrightarrow> set m = {(k, v). umap_find m k = Some v}"
  by (auto simp: umap_find_set)

lemma umap_eq_iff: "umap_eq m n \<longleftrightarrow> umap_ok m \<and> umap_ok n \<and> umap_find m = umap_find n"
proof
  assume eq: "umap_eq m n"
  then have "map_of m = map_of n" by (simp add: umap_eq_def umap_ok_def map_of_inject_set)
  with eq show "umap_ok m \<and> umap_ok n \<and> umap_find m = umap_find n"
    by (simp add: umap_eq_def umap_find_def fun_eq_iff)
next
  assume "umap_ok m \<and> umap_ok n \<and> umap_find m = umap_find n"
  then show "umap_eq m n" by (simp add: umap_eq_def umap_set_find)
qed

lemma umap_eq_find: "umap_eq m n \<Longrightarrow> umap_find m = umap_find n"
  by (simp add: umap_eq_iff)

lemma umap_eq_refl: "umap_ok m \<Longrightarrow> umap_eq m m"
  by (simp add: umap_eq_def)

lemma umap_eq_sym: "umap_eq m n \<Longrightarrow> umap_eq n m"
  by (simp add: umap_eq_def)

lemma umap_eq_emplace: "umap_eq m n \<Longrightarrow> umap_eq (umap_emplace k v m) (umap_emplace k v n)"
  by (simp add: umap_eq_iff um.ok_emplace um.lookup_emplace)

lemma umap_eq_assign: "umap_eq m n \<Longrightarrow> umap_eq (umap_assign k v m) (umap_assign k v n)"
  by (simp add: umap_eq_iff um.ok_assign um.lookup_assign)

lemma umap_eq_modify: "umap_eq m n \<Longrightarrow> umap_eq (umap_modify k f m) (umap_modify k f n)"
  by (simp add: umap_eq_iff um.ok_modify um.lookup_modify)

lemma umap_eq_erase: "umap_eq m n \<Longrightarrow> umap_eq (umap_erase k m) (umap_erase k n)"
  by (simp add: umap_eq_iff um.ok_erase um.lookup_erase)

lemmas umap_eq_intros = umap_eq_emplace umap_eq_assign umap_eq_modify umap_eq_erase

end
