(* ===== verification/Common_Types.thy ===== *)
theory Common_Types
  imports SRS_Prelude
begin

text \<open>
  The value types of \<^verbatim>\<open>lib_srs/inc/Common.hpp\<close> and the wire enumerations of
  \<^verbatim>\<open>fidl/RecoveryScheduler.fidl\<close>: \<^verbatim>\<open>RecoveryState\<close> with its conversions to and from
  its underlying \<^verbatim>\<open>uint8_t\<close>, its rendering, the limits, the catalogue of service
  identifiers and names.
\<close>

section \<open>Limits\<close>

definition MAX_SERVICE_NAME_LENGTH :: int where
  "MAX_SERVICE_NAME_LENGTH = 256"

definition MAX_RECOVERY_ACTIONS :: int where
  "MAX_RECOVERY_ACTIONS = 10"

definition MAX_RECOVERY_INTERVAL :: int where
  "MAX_RECOVERY_INTERVAL = 3600"

section \<open>Recovery states\<close>

text \<open>
  \<^verbatim>\<open>enum class RecoveryState : uint8_t\<close> has a fixed underlying type, so a cast can produce any
  of its 256 values; those with no enumerator are \<open>Unlisted\<close>. Terms such as \<open>Unlisted 0\<close> stand for
  no value of their own: every state enters the program as an enumerator or through the casts
  below, which never produce them.
\<close>

datatype RecoveryState = RESTART | STOP | DISABLE | CRASHED | UNKNOWN | Unlisted u8

definition RecoveryState_of_u8 :: "u8 \<Rightarrow> RecoveryState" where
  "RecoveryState_of_u8 w =
     (if w = 0 then RESTART
      else if w = 1 then STOP
      else if w = 2 then DISABLE
      else if w = 3 then CRASHED
      else if w = 255 then UNKNOWN
      else Unlisted w)"

fun u8_of_RecoveryState :: "RecoveryState \<Rightarrow> u8" where
  "u8_of_RecoveryState RESTART = 0"
| "u8_of_RecoveryState STOP = 1"
| "u8_of_RecoveryState DISABLE = 2"
| "u8_of_RecoveryState CRASHED = 3"
| "u8_of_RecoveryState UNKNOWN = 255"
| "u8_of_RecoveryState (Unlisted w) = w"

text \<open>\<^verbatim>\<open>toString\<close>: the switch has no default, so an unlisted value renders as the empty string.\<close>

fun toString :: "RecoveryState \<Rightarrow> string" where
  "toString RESTART = ''RESTART''"
| "toString STOP = ''STOP''"
| "toString DISABLE = ''DISABLE''"
| "toString CRASHED = ''CRASHED''"
| "toString UNKNOWN = ''UNKNOWN''"
| "toString (Unlisted w) = ''''"

definition stream_RecoveryState :: "string \<Rightarrow> RecoveryState \<Rightarrow> string" where
  "stream_RecoveryState os state = os @ toString state"

section \<open>Wire enumerations\<close>

text \<open>
  The CommonAPI generator turns the Franca enumerations into classes over an integer backing
  type of the generator's choice; a value received from the bus is that integer. The stub's
  double cast first narrows it to \<^verbatim>\<open>uint8_t\<close>.
\<close>

type_synonym wire_state = int

definition wire_RESTART :: wire_state where "wire_RESTART = 0"
definition wire_STOP :: wire_state where "wire_STOP = 1"
definition wire_DISABLE :: wire_state where "wire_DISABLE = 2"
definition wire_CRASHED :: wire_state where "wire_CRASHED = 3"
definition wire_UNKNOWN :: wire_state where "wire_UNKNOWN = 255"

text \<open>The enumeration by the names the interface description gives its literals.\<close>

definition fidl_RecoveryState :: "(string \<times> wire_state) list" where
  "fidl_RecoveryState =
     [(''RESTART'', wire_RESTART), (''STOP'', wire_STOP), (''DISABLE'', wire_DISABLE),
      (''CRASHED'', wire_CRASHED), (''UNKNOWN'', wire_UNKNOWN)]"

definition RecoveryState_of_wire :: "wire_state \<Rightarrow> RecoveryState" where
  "RecoveryState_of_wire lAction = RecoveryState_of_u8 (word_of_int lAction)"

definition wire_of_RecoveryState :: "RecoveryState \<Rightarrow> wire_state" where
  "wire_of_RecoveryState actionTaken = uint (u8_of_RecoveryState actionTaken)"

datatype RegisterResult = Register_OK | INVALID_NAME | ALREADY_EXISTS | INTERNAL_ERROR

datatype UnregisterResult = Unregister_OK | Unregister_NOT_FOUND

datatype QueryResult = Query_OK | Query_NOT_FOUND

section \<open>The catalogue\<close>

datatype ServiceId =
    APP_A | APP_B | APP_C | APP_D | APP_E | APP_F | APP_G | APP_H | APP_I | APP_J
  | APP_K | APP_L | APP_M | APP_N | APP_O | APP_P | APP_Q | APP_R | APP_S | APP_T
  | APP_UNKNOWN

fun ServiceId_value :: "ServiceId \<Rightarrow> u32" where
  "ServiceId_value APP_A = 2100"
| "ServiceId_value APP_B = 2101"
| "ServiceId_value APP_C = 2102"
| "ServiceId_value APP_D = 2103"
| "ServiceId_value APP_E = 2104"
| "ServiceId_value APP_F = 2105"
| "ServiceId_value APP_G = 2106"
| "ServiceId_value APP_H = 2107"
| "ServiceId_value APP_I = 2108"
| "ServiceId_value APP_J = 2109"
| "ServiceId_value APP_K = 2110"
| "ServiceId_value APP_L = 2111"
| "ServiceId_value APP_M = 2112"
| "ServiceId_value APP_N = 2113"
| "ServiceId_value APP_O = 2114"
| "ServiceId_value APP_P = 2115"
| "ServiceId_value APP_Q = 2116"
| "ServiceId_value APP_R = 2117"
| "ServiceId_value APP_S = 2118"
| "ServiceId_value APP_T = 2119"
| "ServiceId_value APP_UNKNOWN = 4294967295"

lemma ServiceId_value_inject: "ServiceId_value a = ServiceId_value b \<longleftrightarrow> a = b"
  by (cases a; cases b; simp)

instantiation ServiceId :: linorder
begin

definition less_eq_ServiceId :: "ServiceId \<Rightarrow> ServiceId \<Rightarrow> bool" where
  "a \<le> b \<longleftrightarrow> ServiceId_value a \<le> ServiceId_value b"

definition less_ServiceId :: "ServiceId \<Rightarrow> ServiceId \<Rightarrow> bool" where
  "a < b \<longleftrightarrow> ServiceId_value a < ServiceId_value b"

instance
  by standard
    (auto simp: less_eq_ServiceId_def less_ServiceId_def simp flip: ServiceId_value_inject)

end

text \<open>\<^verbatim>\<open>std::map<ServiceId, std::string> g_MapServiceNames\<close>, in the order it iterates (by key).\<close>

definition g_MapServiceNames :: "(ServiceId \<times> string) list" where
  "g_MapServiceNames =
     [(APP_A, ''AppA''), (APP_B, ''AppB''), (APP_C, ''AppC''), (APP_D, ''AppD''),
      (APP_E, ''AppE''), (APP_F, ''AppF''), (APP_G, ''AppG''), (APP_H, ''AppH''),
      (APP_I, ''AppI''), (APP_J, ''AppJ''), (APP_K, ''AppK''), (APP_L, ''AppL''),
      (APP_M, ''AppM''), (APP_N, ''AppN''), (APP_O, ''AppO''), (APP_P, ''AppP''),
      (APP_Q, ''AppQ''), (APP_R, ''AppR''), (APP_S, ''AppS''), (APP_T, ''AppT'')]"

text \<open>The names a service may register under.\<close>

definition catalogue_names :: "string set" where
  "catalogue_names = snd ` set g_MapServiceNames"

lemma catalogue_names_nonempty: "name \<in> catalogue_names \<Longrightarrow> name \<noteq> []"
  by (auto simp: catalogue_names_def g_MapServiceNames_def)

lemma catalogue_names_short:
  "name \<in> catalogue_names \<Longrightarrow> int (length name) \<le> MAX_SERVICE_NAME_LENGTH"
  by (auto simp: catalogue_names_def g_MapServiceNames_def MAX_SERVICE_NAME_LENGTH_def)

section \<open>Conversions\<close>

lemma u8_of_RecoveryState_of_u8 [simp]: "u8_of_RecoveryState (RecoveryState_of_u8 w) = w"
  by (simp add: RecoveryState_of_u8_def)

lemma RecoveryState_of_wire_literals [simp]:
  "RecoveryState_of_wire wire_RESTART = RESTART"
  "RecoveryState_of_wire wire_STOP = STOP"
  "RecoveryState_of_wire wire_DISABLE = DISABLE"
  "RecoveryState_of_wire wire_CRASHED = CRASHED"
  "RecoveryState_of_wire wire_UNKNOWN = UNKNOWN"
  by (simp_all add: RecoveryState_of_wire_def RecoveryState_of_u8_def wire_RESTART_def
      wire_STOP_def wire_DISABLE_def wire_CRASHED_def wire_UNKNOWN_def)

lemma fidl_literal:
  assumes "(name, lit) \<in> set fidl_RecoveryState"
  shows "toString (RecoveryState_of_wire lit) = name" and "wire_of_RecoveryState (RecoveryState_of_wire lit) = lit"
    and "RecoveryState_of_wire lit = UNKNOWN \<longleftrightarrow> name = ''UNKNOWN''"
  using assms
  by (auto simp: fidl_RecoveryState_def wire_of_RecoveryState_def wire_RESTART_def wire_STOP_def wire_DISABLE_def
      wire_CRASHED_def wire_UNKNOWN_def RecoveryState_of_wire_def RecoveryState_of_u8_def)

end
