(* ===== verification/Scheduler.thy ===== *)
theory Scheduler
  imports Umap Common_Types
begin

text \<open>
  The in-process registry, \<^verbatim>\<open>CRecoveryScheduler\<close> (\<^verbatim>\<open>lib_srs/inc/CRecoveryScheduler.hpp\<close>,
  \<^verbatim>\<open>lib_srs/src/CRecoveryScheduler.cpp\<close>): the per-service record, the four \<^verbatim>\<open>on*\<close> entry
  points and the snapshot query, each executed as one critical section (the interleavings of
  their parts are the subject of \<open>Interleaving\<close>). The recovery cursor is an 8-bit signed
  integer and the crash counter a 32-bit unsigned one, both with their wrap-around.
\<close>

section \<open>Data\<close>

record SServiceRecoveryInfo =
  serviceName :: string
  pid :: pid_t
  recoveryActions :: "RecoveryState list"
  recoveryInterval :: i32
  recoveryActionCount :: i8
  crashCount :: u32
  isOnline :: bool
  currentRecoveryState :: RecoveryState
  lastAction :: RecoveryState

record SServiceSnapshot =
  found :: bool
  snap_isOnline :: bool
  snap_lastAction :: RecoveryState
  currentAction :: RecoveryState
  nextAction :: RecoveryState
  attemptCount :: int

record CRecoveryScheduler =
  m_MapServiceInfo :: "(string, SServiceRecoveryInfo) umap"

abbreviation lookup_service :: "CRecoveryScheduler \<Rightarrow> string \<Rightarrow> SServiceRecoveryInfo option" where
  "lookup_service st \<equiv> umap_find (m_MapServiceInfo st)"

definition init_scheduler :: CRecoveryScheduler where
  "init_scheduler = \<lparr>m_MapServiceInfo = []\<rparr>"

text \<open>\<^verbatim>\<open>SServiceRecoveryInfo::push\<close>, one \<^verbatim>\<open>push_back\<close> per iteration.\<close>

fun push :: "SServiceRecoveryInfo \<Rightarrow> RecoveryState list \<Rightarrow> SServiceRecoveryInfo" where
  "push info [] = info"
| "push info (action # lvActions) =
     push (info\<lparr>recoveryActions := recoveryActions info @ [action]\<rparr>) lvActions"

section \<open>Operations\<close>

definition isNameValid :: "string \<Rightarrow> bool" where
  "isNameValid lStrName =
     fold (\<lambda>pair valid. if snd pair = lStrName then True else valid) g_MapServiceNames False"

definition new_service_info :: "string \<Rightarrow> RecoveryState list \<Rightarrow> i32 \<Rightarrow> SServiceRecoveryInfo" where
  "new_service_info lStrName lvActions liInterval =
     (let lServiceInfo =
        \<lparr>serviceName = lStrName, pid = - 1, recoveryActions = [], recoveryInterval = liInterval,
         recoveryActionCount = - 1, crashCount = 0, isOnline = True,
         currentRecoveryState = UNKNOWN, lastAction = UNKNOWN\<rparr>
      in if lvActions \<noteq> [] then push lServiceInfo lvActions
         else push lServiceInfo [RESTART, RESTART, STOP, DISABLE])"

definition onRegisterService ::
  "string \<Rightarrow> RecoveryState list \<Rightarrow> i32 \<Rightarrow> pid_t \<Rightarrow> CRecoveryScheduler \<Rightarrow> bool \<times> CRecoveryScheduler"
where
  "onRegisterService lStrName lvActions liInterval lPid st =
     (case umap_find (m_MapServiceInfo st) lStrName of
        None \<Rightarrow>
          if isNameValid lStrName
          then (True, st\<lparr>m_MapServiceInfo :=
                 umap_emplace lStrName (new_service_info lStrName lvActions liInterval)
                   (m_MapServiceInfo st)\<rparr>)
          else (False, st)
      | Some _ \<Rightarrow>
          (True, st\<lparr>m_MapServiceInfo :=
             umap_modify lStrName (\<lambda>info. info\<lparr>isOnline := True\<rparr>) (m_MapServiceInfo st)\<rparr>))"

definition onUnregisterService :: "string \<Rightarrow> CRecoveryScheduler \<Rightarrow> bool \<times> CRecoveryScheduler" where
  "onUnregisterService lStrName st =
     (case umap_find_if (\<lambda>_ info. serviceName info = lStrName) (m_MapServiceInfo st) of
        None \<Rightarrow> (False, st)
      | Some (key, _) \<Rightarrow> (True, st\<lparr>m_MapServiceInfo := umap_erase key (m_MapServiceInfo st)\<rparr>))"

definition onReportServiceState ::
  "string \<Rightarrow> RecoveryState \<Rightarrow> RecoveryState \<Rightarrow> CRecoveryScheduler \<Rightarrow> bool \<times> CRecoveryScheduler"
where
  "onReportServiceState lStrName lCurrent lLast st =
     (case umap_find (m_MapServiceInfo st) lStrName of
        None \<Rightarrow> (False, st)
      | Some _ \<Rightarrow>
          (True, st\<lparr>m_MapServiceInfo :=
             umap_modify lStrName
               (\<lambda>info. let info1 = info\<lparr>currentRecoveryState := lCurrent\<rparr>
                       in if lLast \<noteq> UNKNOWN then info1\<lparr>lastAction := lLast\<rparr> else info1)
               (m_MapServiceInfo st)\<rparr>))"

text \<open>
  The cursor: increment and wrap of \<^verbatim>\<open>onServiceFailure\<close>, and the peek of
  \<^verbatim>\<open>getServiceState\<close>, whose comparison is made after promotion to \<^verbatim>\<open>int\<close>.
\<close>

definition next_cursor :: "nat \<Rightarrow> i8 \<Rightarrow> i8" where
  "next_cursor lSize count =
     (let count1 = count + 1 in if count1 = i8_of_size lSize then 0 else count1)"

definition peek_cursor :: "nat \<Rightarrow> i8 \<Rightarrow> i8" where
  "peek_cursor lSize count =
     (if sint count + 1 \<ge> sint (i8_of_size lSize) then 0 else count + 1)"

definition fail_info :: "SServiceRecoveryInfo \<Rightarrow> SServiceRecoveryInfo result" where
  "fail_info info =
     (let info1 = info\<lparr>isOnline := False, crashCount := crashCount info + 1,
                       recoveryActionCount :=
                         next_cursor (length (recoveryActions info)) (recoveryActionCount info)\<rparr>
      in bind_result (vec_at (recoveryActions info1) (size_of_i8 (recoveryActionCount info1)))
           (\<lambda>lNextState. Inr (info1\<lparr>lastAction := CRASHED, currentRecoveryState := lNextState\<rparr>)))"

text \<open>The \<^verbatim>\<open>switch\<close> on the chosen action that ends the handler has empty branches (their
  bodies are to-do comments), so it changes nothing.\<close>

definition onServiceFailure :: "string \<Rightarrow> CRecoveryScheduler \<Rightarrow> CRecoveryScheduler result" where
  "onServiceFailure lStrName st =
     (case umap_find_if (\<lambda>_ info. serviceName info = lStrName) (m_MapServiceInfo st) of
        None \<Rightarrow> Inr st
      | Some (key, info) \<Rightarrow>
          bind_result (fail_info info)
            (\<lambda>info'. Inr (st\<lparr>m_MapServiceInfo :=
                           umap_modify key (\<lambda>_. info') (m_MapServiceInfo st)\<rparr>)))"

definition no_snapshot :: SServiceSnapshot where
  "no_snapshot =
     \<lparr>found = False, snap_isOnline = False, snap_lastAction = UNKNOWN, currentAction = UNKNOWN,
      nextAction = UNKNOWN, attemptCount = 0\<rparr>"

definition peek_action :: "SServiceRecoveryInfo \<Rightarrow> RecoveryState result" where
  "peek_action info =
     (if recoveryActions info \<noteq> []
      then vec_at (recoveryActions info)
             (size_of_i8 (peek_cursor (length (recoveryActions info)) (recoveryActionCount info)))
      else Inr UNKNOWN)"

definition getServiceState :: "string \<Rightarrow> CRecoveryScheduler \<Rightarrow> SServiceSnapshot result" where
  "getServiceState lStrName st =
     (case umap_find (m_MapServiceInfo st) lStrName of
        None \<Rightarrow> Inr no_snapshot
      | Some info \<Rightarrow>
          bind_result (peek_action info)
            (\<lambda>lNext. Inr (no_snapshot\<lparr>found := True, snap_isOnline := isOnline info,
                            currentAction := currentRecoveryState info,
                            snap_lastAction := lastAction info,
                            attemptCount := sint (crashCount info),
                            nextAction := lNext\<rparr>)))"

section \<open>The recovery cursor\<close>

text \<open>
  The number of actions the cursor cycles through. The policy's size is compared after a cast to
  \<^verbatim>\<open>int8_t\<close>: sizes up to 128 give a ring of that size (128 itself by the wrap from 127 to
  \<open>-128\<close>); a larger size is reduced modulo 256, and where the reduced size is zero or
  negative (and not \<open>-128\<close>) the cursor runs off the policy.
\<close>

definition ring_size :: "nat \<Rightarrow> nat option" where
  "ring_size n =
     (let k = sint (i8_of_size n)
      in if 1 \<le> k then Some (nat k) else if k = - 128 then Some 128 else None)"

definition cursor_ok :: "nat \<Rightarrow> i8 \<Rightarrow> bool" where
  "cursor_ok n c \<longleftrightarrow>
     (case ring_size n of None \<Rightarrow> False | Some r \<Rightarrow> - 1 \<le> sint c \<and> sint c < int r)"

lemma ring_size_small: "1 \<le> n \<Longrightarrow> n \<le> 128 \<Longrightarrow> ring_size n = Some n"
  by (cases "n = 128") (auto simp: ring_size_def sint_i8_of_size)

lemma ring_size_bounds:
  assumes "ring_size n = Some r"
  shows "1 \<le> r" and "r \<le> n" and "r \<le> 128"
proof -
  have le: "(int n + 128) mod 256 \<le> int n + 128"
    by (rule zmod_le_nonneg_dividend) simp
  have less: "(int n + 128) mod 256 < 256" by simp
  have "n \<noteq> 0" using assms by (intro notI) (simp add: ring_size_def sint_i8_of_size)
  have wrap: "128 \<le> n" if "(int n + 128) mod 256 = 0"
    using that \<open>n \<noteq> 0\<close> by (cases "int n + 128 < 256") auto
  show "1 \<le> r" and "r \<le> n" and "r \<le> 128"
    using assms le less wrap
    by (auto simp: ring_size_def sint_i8_of_size Let_def split: if_splits)
qed

lemma cursor_okE:
  assumes "cursor_ok n c"
  obtains r where "ring_size n = Some r" "- 1 \<le> sint c" "sint c < int r"
  using assms by (auto simp: cursor_ok_def split: option.splits)

lemma cursor_ok_initial: "ring_size n = Some r \<Longrightarrow> cursor_ok n (- 1)"
  using ring_size_bounds [of n r] by (simp add: cursor_ok_def)

lemma sint_next_cursor:
  assumes "ring_size n = Some r" and "- 1 \<le> sint c" and "sint c < int r"
  shows "sint (next_cursor n c) = (sint c + 1) mod int r"
proof -
  have r: "1 \<le> r" "r \<le> 128" using ring_size_bounds [OF assms(1)] by auto
  have k: "sint (i8_of_size n) = (if r = 128 then - 128 else int r)"
    using assms(1) sint_i8_upper [of "i8_of_size n"]
    by (auto simp: ring_size_def Let_def split: if_splits)
  have "sint c + 1 \<le> int r" using assms(3) by simp
  then show ?thesis
    using assms(2) r
    by (auto simp: next_cursor_def Let_def i8_eq_iff k sint_i8_succ mod_pos_pos_trivial)
qed

lemma next_cursor_in_ring:
  assumes "cursor_ok n c"
  shows "0 \<le> sint (next_cursor n c)" and "size_of_i8 (next_cursor n c) < n"
    and "cursor_ok n (next_cursor n c)"
proof -
  from assms obtain r where r: "ring_size n = Some r" "- 1 \<le> sint c" "sint c < int r"
    by (rule cursor_okE)
  note eq = sint_next_cursor [OF r] and b = ring_size_bounds [OF r(1)]
  from b have m: "0 \<le> (sint c + 1) mod int r" "(sint c + 1) mod int r < int r" by simp_all
  then show nonneg: "0 \<le> sint (next_cursor n c)" by (simp add: eq)
  have "sint (next_cursor n c) < int n" using eq m(2) b(2) by linarith
  with nonneg show "size_of_i8 (next_cursor n c) < n"
    by (simp add: size_of_i8_nonneg nat_less_iff)
  from m r(1) show "cursor_ok n (next_cursor n c)" by (simp add: cursor_ok_def eq)
qed

text \<open>The peek agrees with the step it announces whenever the size fits the cursor's type.\<close>

lemma peek_cursor_eq_next:
  assumes "cursor_ok n c" and "0 < sint (i8_of_size n)"
  shows "peek_cursor n c = next_cursor n c"
proof -
  from assms(1) obtain r where r: "ring_size n = Some r" "- 1 \<le> sint c" "sint c < int r"
    by (rule cursor_okE)
  from r(1) assms(2) have "sint (i8_of_size n) = int r"
    by (auto simp: ring_size_def Let_def split: if_splits)
  with r show ?thesis
    using sint_i8_upper [of "i8_of_size n"]
    by (auto simp: peek_cursor_def next_cursor_def Let_def i8_eq_iff sint_i8_succ)
qed

lemma peek_cursor_in_range:
  assumes "cursor_ok n c"
  shows "size_of_i8 (peek_cursor n c) < n"
proof (cases "0 < sint (i8_of_size n)")
  case True
  with assms show ?thesis by (simp add: peek_cursor_eq_next next_cursor_in_ring)
next
  case False
  from assms obtain r where r: "ring_size n = Some r" "- 1 \<le> sint c" by (rule cursor_okE)
  with False have "peek_cursor n c = 0" by (simp add: peek_cursor_def)
  with ring_size_bounds [OF r(1)] show ?thesis by (simp add: size_of_i8_def)
qed

section \<open>Invariant\<close>

text \<open>
  Every entry is stored under its own service name, which is a name of the catalogue, with a
  non-empty policy; \<open>sched_safe\<close> adds that every cursor is inside its ring.
\<close>

definition info_ok :: "string \<Rightarrow> SServiceRecoveryInfo \<Rightarrow> bool" where
  "info_ok key info \<longleftrightarrow>
     serviceName info = key \<and> key \<in> catalogue_names \<and> recoveryActions info \<noteq> []"

definition info_safe :: "string \<Rightarrow> SServiceRecoveryInfo \<Rightarrow> bool" where
  "info_safe key info \<longleftrightarrow>
     cursor_ok (length (recoveryActions info)) (recoveryActionCount info)"

definition sched_ok :: "CRecoveryScheduler \<Rightarrow> bool" where
  "sched_ok st \<longleftrightarrow> umap_ok (m_MapServiceInfo st) \<and> umap_all info_ok (m_MapServiceInfo st)"

definition sched_safe :: "CRecoveryScheduler \<Rightarrow> bool" where
  "sched_safe st \<longleftrightarrow> sched_ok st \<and> umap_all info_safe (m_MapServiceInfo st)"

text \<open>A policy (the default one when empty) that gives the cursor a ring.\<close>

definition effective_policy :: "RecoveryState list \<Rightarrow> RecoveryState list" where
  "effective_policy lvActions =
     (if lvActions \<noteq> [] then lvActions else [RESTART, RESTART, STOP, DISABLE])"

definition policy_safe :: "RecoveryState list \<Rightarrow> bool" where
  "policy_safe lvActions \<longleftrightarrow> ring_size (length (effective_policy lvActions)) \<noteq> None"

lemma policy_safe_small: "length lvActions \<le> 128 \<Longrightarrow> policy_safe lvActions"
  by (cases "lvActions = []") (simp_all add: policy_safe_def effective_policy_def ring_size_small Suc_leI)

lemma sched_ok_umap_ok: "sched_ok st \<Longrightarrow> umap_ok (m_MapServiceInfo st)"
  by (simp add: sched_ok_def)

lemma sched_ok_info:
  "sched_ok st \<Longrightarrow> lookup_service st lStrName = Some info \<Longrightarrow> info_ok lStrName info"
  unfolding sched_ok_def by (blast dest: um.everyD)

lemma sched_safe_info:
  "sched_safe st \<Longrightarrow> lookup_service st lStrName = Some info \<Longrightarrow> info_safe lStrName info"
  unfolding sched_safe_def by (blast dest: um.everyD sched_ok_umap_ok)

lemma sched_safe_ok: "sched_safe st \<Longrightarrow> sched_ok st"
  by (simp add: sched_safe_def)

lemma init_scheduler_safe [srs_inv]: "sched_safe init_scheduler"
  by (simp add: sched_safe_def sched_ok_def init_scheduler_def)

lemma lookup_init [simp]: "lookup_service init_scheduler lStrName = None"
  by (simp add: init_scheduler_def)

section \<open>What the operations do\<close>

lemma isNameValid_iff: "isNameValid lStrName \<longleftrightarrow> lStrName \<in> catalogue_names"
  by (auto simp: isNameValid_def catalogue_names_def fold_any)

lemma push_eq: "push info lvActions = info\<lparr>recoveryActions := recoveryActions info @ lvActions\<rparr>"
  by (induction lvActions arbitrary: info) simp_all

lemma new_service_info_eq:
  "new_service_info lStrName lvActions liInterval =
     \<lparr>serviceName = lStrName, pid = - 1, recoveryActions = effective_policy lvActions,
      recoveryInterval = liInterval, recoveryActionCount = - 1, crashCount = 0, isOnline = True,
      currentRecoveryState = UNKNOWN, lastAction = UNKNOWN\<rparr>"
  by (simp add: new_service_info_def push_eq effective_policy_def)

lemma info_ok_new: "lStrName \<in> catalogue_names \<Longrightarrow>
    info_ok lStrName (new_service_info lStrName lvActions liInterval)"
  by (simp add: info_ok_def new_service_info_eq effective_policy_def)

lemma info_safe_new:
  "policy_safe lvActions \<Longrightarrow> info_safe key (new_service_info lStrName lvActions liInterval)"
  by (auto simp: info_safe_def new_service_info_eq policy_safe_def intro: cursor_ok_initial)

lemma find_if_service:
  assumes "sched_ok st"
  shows "umap_find_if (\<lambda>_ info. serviceName info = lStrName) (m_MapServiceInfo st) =
    map_option (Pair lStrName) (lookup_service st lStrName)"
proof (rule um.first_if_unique)
  show "umap_ok (m_MapServiceInfo st)" using assms by (rule sched_ok_umap_ok)
  show "serviceName info = lStrName \<longleftrightarrow> key = lStrName" if "lookup_service st key = Some info" for key info
    using sched_ok_info [OF assms that] by (auto simp: info_ok_def)
qed

lemma register_result: "fst (onRegisterService lStrName lvActions liInterval lPid st) \<longleftrightarrow>
    lookup_service st lStrName \<noteq> None \<or> lStrName \<in> catalogue_names"
  by (simp add: onRegisterService_def isNameValid_iff split: option.split)

lemma lookup_register [srs_view]:
  "lookup_service (snd (onRegisterService lStrName lvActions liInterval lPid st)) =
     (case lookup_service st lStrName of
        None \<Rightarrow> if lStrName \<in> catalogue_names
                then (lookup_service st)(lStrName \<mapsto> new_service_info lStrName lvActions liInterval)
                else lookup_service st
      | Some info \<Rightarrow> (lookup_service st)(lStrName \<mapsto> info\<lparr>isOnline := True\<rparr>))"
  by (simp add: onRegisterService_def isNameValid_iff um.lookup_emplace um.lookup_modify
      split: option.split)

lemma unregister_eq:
  "sched_ok st \<Longrightarrow> onUnregisterService lStrName st =
     (case lookup_service st lStrName of
        None \<Rightarrow> (False, st)
      | Some _ \<Rightarrow> (True, st\<lparr>m_MapServiceInfo := umap_erase lStrName (m_MapServiceInfo st)\<rparr>))"
  by (simp add: onUnregisterService_def find_if_service split: option.split)

lemma lookup_unregister [srs_view]:
  "sched_ok st \<Longrightarrow> lookup_service (snd (onUnregisterService lStrName st)) =
     (lookup_service st)(lStrName := None)"
  by (auto simp: unregister_eq um.lookup_erase fun_upd_idem split: option.split)

lemma lookup_report [srs_view]:
  "lookup_service (snd (onReportServiceState lStrName lCurrent lLast st)) =
     (lookup_service st)(lStrName :=
        map_option (\<lambda>info. info\<lparr>currentRecoveryState := lCurrent,
                              lastAction := (if lLast \<noteq> UNKNOWN then lLast else lastAction info)\<rparr>)
          (lookup_service st lStrName))"
  by (auto simp: onReportServiceState_def um.lookup_modify fun_eq_iff Let_def split: option.split)

lemma fail_info_eq:
  assumes "info_safe key info"
  shows "fail_info info =
    (let c = next_cursor (length (recoveryActions info)) (recoveryActionCount info)
     in Inr (info\<lparr>isOnline := False, crashCount := crashCount info + 1, recoveryActionCount := c,
                  lastAction := CRASHED,
                  currentRecoveryState := recoveryActions info ! nat (sint c)\<rparr>))"
  using assms next_cursor_in_ring
  by (simp add: fail_info_def info_safe_def Let_def size_of_i8_nonneg)

lemma failure_eq:
  "sched_ok st \<Longrightarrow> onServiceFailure lStrName st =
     (case lookup_service st lStrName of
        None \<Rightarrow> Inr st
      | Some info \<Rightarrow>
          bind_result (fail_info info)
            (\<lambda>info'. Inr (st\<lparr>m_MapServiceInfo :=
                           umap_modify lStrName (\<lambda>_. info') (m_MapServiceInfo st)\<rparr>)))"
  by (simp add: onServiceFailure_def find_if_service split: option.split)

lemma lookup_failure [srs_view]:
  assumes "sched_ok st" and "onServiceFailure lStrName st = Inr st'"
  shows "lookup_service st' =
    (case lookup_service st lStrName of
       None \<Rightarrow> lookup_service st
     | Some info \<Rightarrow> (lookup_service st)(lStrName := case fail_info info of Inr i \<Rightarrow> Some i | Inl _ \<Rightarrow> None))"
  using assms
  by (auto simp: failure_eq um.lookup_modify bind_result_Inr_iff split: option.splits)

section \<open>Every operation keeps the invariant\<close>

lemma register_ok [srs_inv]:
  "sched_ok st \<Longrightarrow> sched_ok (snd (onRegisterService lStrName lvActions liInterval lPid st))"
  by (auto simp: onRegisterService_def sched_ok_def isNameValid_iff info_ok_new srs_inv
      split: option.split intro!: um.every_intros) (auto simp: info_ok_def)

lemma unregister_ok [srs_inv]:
  "sched_ok st \<Longrightarrow> sched_ok (snd (onUnregisterService lStrName st))"
  by (auto simp: unregister_eq sched_ok_def srs_inv split: option.split intro!: um.every_erase)

lemma report_ok [srs_inv]:
  "sched_ok st \<Longrightarrow> sched_ok (snd (onReportServiceState lStrName lCurrent lLast st))"
  by (auto simp: onReportServiceState_def sched_ok_def srs_inv Let_def
      split: option.split intro!: um.every_modify) (auto simp: info_ok_def)

lemma fail_info_keeps:
  "fail_info info = Inr info' \<Longrightarrow>
     serviceName info' = serviceName info \<and> recoveryActions info' = recoveryActions info \<and>
     recoveryActionCount info' = next_cursor (length (recoveryActions info)) (recoveryActionCount info)"
  by (auto simp: fail_info_def bind_result_Inr_iff Let_def)

lemma failure_ok [srs_inv]:
  "sched_ok st \<Longrightarrow> onServiceFailure lStrName st = Inr st' \<Longrightarrow> sched_ok st'"
  by (auto simp: failure_eq sched_ok_def srs_inv bind_result_Inr_iff
      split: option.splits intro!: um.every_modify dest!: fail_info_keeps) (auto simp: info_ok_def)

lemma register_safe [srs_inv]:
  assumes "sched_safe st" and "policy_safe lvActions"
  shows "sched_safe (snd (onRegisterService lStrName lvActions liInterval lPid st))"
proof -
  have "umap_all info_safe (m_MapServiceInfo (snd (onRegisterService lStrName lvActions liInterval lPid st)))"
    using assms sched_ok_umap_ok [OF sched_safe_ok [OF assms(1)]]
    by (auto simp: onRegisterService_def sched_safe_def info_safe_new
        split: option.split intro!: um.every_intros) (simp add: info_safe_def)
  with assms(1) show ?thesis by (simp add: sched_safe_def register_ok)
qed

lemma unregister_safe [srs_inv]:
  "sched_safe st \<Longrightarrow> sched_safe (snd (onUnregisterService lStrName st))"
  by (auto simp: sched_safe_def unregister_ok)
    (auto simp: unregister_eq sched_ok_umap_ok split: option.split intro!: um.every_erase)

lemma report_safe [srs_inv]:
  "sched_safe st \<Longrightarrow> sched_safe (snd (onReportServiceState lStrName lCurrent lLast st))"
  by (auto simp: sched_safe_def report_ok)
    (auto simp: onReportServiceState_def sched_ok_umap_ok info_safe_def Let_def
      split: option.split intro!: um.every_modify)

text \<open>On a safe registry a failure report never leaves the policy: the handler returns.\<close>

definition failed_info :: "SServiceRecoveryInfo \<Rightarrow> SServiceRecoveryInfo" where
  "failed_info info =
     (let c = next_cursor (length (recoveryActions info)) (recoveryActionCount info)
      in info\<lparr>isOnline := False, crashCount := crashCount info + 1, recoveryActionCount := c,
              lastAction := CRASHED,
              currentRecoveryState := recoveryActions info ! nat (sint c)\<rparr>)"

lemma fail_info_safe: "info_safe key info \<Longrightarrow> fail_info info = Inr (failed_info info)"
  by (simp add: fail_info_eq failed_info_def Let_def)

lemma info_safe_failed: "info_safe key info \<Longrightarrow> info_safe key' (failed_info info)"
  by (simp add: info_safe_def failed_info_def Let_def next_cursor_in_ring)

lemma failure_returns:
  assumes "sched_safe st"
  obtains st' where "onServiceFailure lStrName st = Inr st'" and "sched_safe st'"
    and "lookup_service st' =
      (lookup_service st)(lStrName := map_option failed_info (lookup_service st lStrName))"
proof (cases "lookup_service st lStrName")
  case None
  with assms show thesis
    by (intro that [of st]) (simp_all add: failure_eq sched_safe_ok fun_upd_idem)
next
  case (Some info)
  let ?m = "m_MapServiceInfo st"
  let ?st' = "st\<lparr>m_MapServiceInfo := umap_modify lStrName (\<lambda>_. failed_info info) ?m\<rparr>"
  have safe: "info_safe lStrName info" using assms Some by (rule sched_safe_info)
  have eq: "onServiceFailure lStrName st = Inr ?st'"
    using assms Some by (simp add: failure_eq sched_safe_ok fail_info_safe [OF safe])
  have "umap_all info_safe (umap_modify lStrName (\<lambda>_. failed_info info) ?m)"
    using assms info_safe_failed [OF safe]
    by (auto simp: sched_safe_def sched_ok_umap_ok intro!: um.every_modify)
  then have "sched_safe ?st'"
    using failure_ok [OF sched_safe_ok [OF assms] eq] by (simp add: sched_safe_def)
  with eq Some show thesis by (intro that [of ?st']) (simp_all add: um.lookup_modify)
qed

lemma failure_Inr:
  assumes "sched_safe st" and "onServiceFailure lStrName st = Inr st'"
  shows "sched_safe st'" and "lookup_service st' =
      (lookup_service st)(lStrName := map_option failed_info (lookup_service st lStrName))"
  using failure_returns [OF assms(1), of lStrName] assms(2) by auto

text \<open>The snapshot of a registered, safe service.\<close>

definition snapshot_of :: "SServiceRecoveryInfo \<Rightarrow> SServiceSnapshot" where
  "snapshot_of info =
     \<lparr>found = True, snap_isOnline = isOnline info, snap_lastAction = lastAction info,
      currentAction = currentRecoveryState info,
      nextAction = recoveryActions info !
        nat (sint (peek_cursor (length (recoveryActions info)) (recoveryActionCount info))),
      attemptCount = sint (crashCount info)\<rparr>"

lemma peek_cursor_nonneg: "cursor_ok n c \<Longrightarrow> 0 \<le> sint (peek_cursor n c)"
  using sint_i8_upper [of "i8_of_size n"]
  by (auto simp: peek_cursor_def sint_i8_succ elim: cursor_okE)

lemma getServiceState_safe:
  assumes "sched_safe st"
  shows "getServiceState lStrName st =
    Inr (case lookup_service st lStrName of None \<Rightarrow> no_snapshot | Some info \<Rightarrow> snapshot_of info)"
proof (cases "lookup_service st lStrName")
  case None
  then show ?thesis by (simp add: getServiceState_def)
next
  case (Some info)
  have "cursor_ok (length (recoveryActions info)) (recoveryActionCount info)"
    using sched_safe_info [OF assms Some] by (simp add: info_safe_def)
  moreover have "recoveryActions info \<noteq> []"
    using sched_ok_info [OF sched_safe_ok [OF assms] Some] by (simp add: info_ok_def)
  ultimately show ?thesis
    using Some peek_cursor_in_range peek_cursor_nonneg
    by (auto simp: getServiceState_def peek_action_def snapshot_of_def no_snapshot_def
        size_of_i8_nonneg)
qed

end
