(* ===== verification/Scheduler_Spec.thy ===== *)
theory Scheduler_Spec
  imports Scheduler
begin

text \<open>
  What the scheduler promises, and that it keeps it. The specification has no 8-bit cursor and
  no wrapping counter: a service is its policy, the number of crashes so far (a natural number)
  and the reported states, and the action of a crash is the policy entry at the crash number
  modulo the policy's length. The registry of \<open>Scheduler\<close> refines it for policies of at
  most 128 actions; which policies are safe at all is characterised exactly.
\<close>

section \<open>Specification\<close>

record service_spec =
  policy :: "RecoveryState list"
  crashes :: nat
  spec_online :: bool
  spec_current :: RecoveryState
  spec_last :: RecoveryState

type_synonym registry_spec = "string \<rightharpoonup> service_spec"

definition fresh_spec :: "RecoveryState list \<Rightarrow> service_spec" where
  "fresh_spec lvActions =
     \<lparr>policy = effective_policy lvActions, crashes = 0, spec_online = True,
      spec_current = UNKNOWN, spec_last = UNKNOWN\<rparr>"

definition spec_next :: "service_spec \<Rightarrow> RecoveryState" where
  "spec_next sp = policy sp ! (crashes sp mod length (policy sp))"

definition crash_spec :: "service_spec \<Rightarrow> service_spec" where
  "crash_spec sp =
     sp\<lparr>crashes := Suc (crashes sp), spec_online := False, spec_last := CRASHED,
        spec_current := spec_next sp\<rparr>"

datatype sched_op =
    Register string "RecoveryState list" i32 pid_t
  | Unregister string
  | Report string RecoveryState RecoveryState
  | Failure string

fun spec_op :: "sched_op \<Rightarrow> registry_spec \<Rightarrow> bool \<times> registry_spec" where
  "spec_op (Register n lvActions liInterval lPid) reg =
     (case reg n of
        None \<Rightarrow> if n \<in> catalogue_names then (True, reg(n \<mapsto> fresh_spec lvActions)) else (False, reg)
      | Some sp \<Rightarrow> (True, reg(n \<mapsto> sp\<lparr>spec_online := True\<rparr>)))"
| "spec_op (Unregister n) reg = (reg n \<noteq> None, reg(n := None))"
| "spec_op (Report n lCurrent lLast) reg =
     (reg n \<noteq> None,
      reg(n := map_option (\<lambda>sp. sp\<lparr>spec_current := lCurrent,
                 spec_last := (if lLast \<noteq> UNKNOWN then lLast else spec_last sp)\<rparr>) (reg n)))"
| "spec_op (Failure n) reg = (True, reg(n := map_option crash_spec (reg n)))"

text \<open>The scheduler's entry points as operations of the same vocabulary.\<close>

fun sched_exec :: "sched_op \<Rightarrow> CRecoveryScheduler \<Rightarrow> (bool \<times> CRecoveryScheduler) result" where
  "sched_exec (Register n lvActions liInterval lPid) st =
     Inr (onRegisterService n lvActions liInterval lPid st)"
| "sched_exec (Unregister n) st = Inr (onUnregisterService n st)"
| "sched_exec (Report n lCurrent lLast) st = Inr (onReportServiceState n lCurrent lLast st)"
| "sched_exec (Failure n) st = bind_result (onServiceFailure n st) (\<lambda>st'. Inr (True, st'))"

fun bounded_op :: "sched_op \<Rightarrow> bool" where
  "bounded_op (Register n lvActions liInterval lPid) = (length lvActions \<le> 128)"
| "bounded_op _ = True"

definition info_refines :: "SServiceRecoveryInfo \<Rightarrow> service_spec \<Rightarrow> bool" where
  "info_refines info sp \<longleftrightarrow>
     recoveryActions info = policy sp \<and> 1 \<le> length (policy sp) \<and> length (policy sp) \<le> 128 \<and>
     crashCount info = word_of_nat (crashes sp) \<and>
     sint (recoveryActionCount info) =
       (if crashes sp = 0 then - 1 else int ((crashes sp - 1) mod length (policy sp))) \<and>
     isOnline info = spec_online sp \<and> currentRecoveryState info = spec_current sp \<and>
     lastAction info = spec_last sp"

definition sched_refines :: "CRecoveryScheduler \<Rightarrow> registry_spec \<Rightarrow> bool" where
  "sched_refines st reg \<longleftrightarrow>
     sched_safe st \<and> (\<forall>n. rel_option info_refines (lookup_service st n) (reg n))"

section \<open>One service\<close>

lemma info_refines_fresh:
  "length lvActions \<le> 128 \<Longrightarrow>
   info_refines (new_service_info n lvActions liInterval) (fresh_spec lvActions)"
  by (auto simp: info_refines_def new_service_info_eq fresh_spec_def effective_policy_def Suc_le_eq)

lemma succ_mod_pred:
  assumes "0 < c"
  shows "(int ((c - Suc 0) mod len) + 1) mod int len = int (c mod len)"
proof -
  have "int (c mod len) = (int (c - Suc 0) + 1) mod int len"
    using assms by (simp add: of_nat_diff zmod_int)
  then show ?thesis by (simp add: zmod_int mod_add_left_eq)
qed

lemma sint_next_cursor_crashes:
  assumes "info_refines info sp"
  shows "sint (next_cursor (length (recoveryActions info)) (recoveryActionCount info)) =
    int (crashes sp mod length (policy sp))"
proof -
  let ?len = "length (policy sp)"
  have len: "ring_size ?len = Some ?len" "0 < ?len"
    using assms by (auto simp: info_refines_def ring_size_small)
  have "sint (recoveryActionCount info) = (if crashes sp = 0 then - 1 else int ((crashes sp - 1) mod ?len))"
    and [simp]: "recoveryActions info = policy sp"
    using assms by (simp_all add: info_refines_def)
  then show ?thesis
    using len by (subst sint_next_cursor [OF _]) (auto simp: succ_mod_pred of_nat_less_iff)
qed

lemma info_refines_crash:
  assumes "info_refines info sp"
  shows "info_refines (failed_info info) (crash_spec sp)"
  using assms sint_next_cursor_crashes [OF assms]
  by (simp add: info_refines_def failed_info_def crash_spec_def spec_next_def Let_def add.commute)

lemma peek_refines:
  assumes "info_refines info sp" and "length (policy sp) \<le> 127" and "info_safe n info"
  shows "nextAction (snapshot_of info) = spec_next sp"
proof -
  let ?len = "length (recoveryActions info)"
  have "?len = length (policy sp)" and pos: "1 \<le> ?len" "?len \<le> 127"
    and acts: "recoveryActions info = policy sp"
    using assms by (simp_all add: info_refines_def)
  then have "peek_cursor ?len (recoveryActionCount info) = next_cursor ?len (recoveryActionCount info)"
    using assms(3) by (intro peek_cursor_eq_next) (auto simp: info_safe_def sint_i8_of_size_small)
  then show ?thesis
    using sint_next_cursor_crashes [OF assms(1)] by (simp add: snapshot_of_def spec_next_def acts)
qed

section \<open>The registry\<close>

lemma sched_refines_init: "sched_refines init_scheduler Map.empty"
  by (simp add: sched_refines_def init_scheduler_safe)

lemma sched_refines_lookup:
  "sched_refines st reg \<Longrightarrow> rel_option info_refines (lookup_service st n) (reg n)"
  by (simp add: sched_refines_def)

lemma sched_refines_safe: "sched_refines st reg \<Longrightarrow> sched_safe st"
  by (simp add: sched_refines_def)

lemma sched_refines_upd:
  assumes "sched_refines st reg" and "sched_safe st'"
    and "lookup_service st' = (lookup_service st)(n := i)" and "rel_option info_refines i sp"
  shows "sched_refines st' (reg(n := sp))"
  using assms by (simp add: sched_refines_def)

lemma refines_register:
  assumes rel: "sched_refines st reg" and len: "length lvActions \<le> 128"
  shows "\<exists>st'. sched_exec (Register n lvActions liInterval lPid) st =
       Inr (fst (spec_op (Register n lvActions liInterval lPid) reg), st') \<and>
     sched_refines st' (snd (spec_op (Register n lvActions liInterval lPid) reg))"
proof -
  let ?r = "onRegisterService n lvActions liInterval lPid st"
  have safe: "sched_safe (snd ?r)"
    using sched_refines_safe [OF rel] policy_safe_small [OF len] by (rule register_safe)
  show ?thesis
  proof (cases "reg n")
    case None
    with sched_refines_lookup [OF rel, of n] have no: "lookup_service st n = None" by simp
    show ?thesis
    proof (cases "n \<in> catalogue_names")
      case True
      with no have "lookup_service (snd ?r) =
          (lookup_service st)(n \<mapsto> new_service_info n lvActions liInterval)"
        by (simp add: lookup_register)
      with rel safe have "sched_refines (snd ?r) (reg(n \<mapsto> fresh_spec lvActions))"
        by (rule sched_refines_upd) (simp add: info_refines_fresh [OF len])
      with True None no show ?thesis by (simp add: register_result prod_eq_iff)
    next
      case False
      with no have "?r = (False, st)" by (simp add: onRegisterService_def isNameValid_iff)
      with False None rel show ?thesis by simp
    qed
  next
    case (Some sp)
    with sched_refines_lookup [OF rel, of n] obtain info
      where info: "lookup_service st n = Some info" "info_refines info sp"
      by (auto elim: option.rel_cases)
    then have "lookup_service (snd ?r) = (lookup_service st)(n \<mapsto> info\<lparr>isOnline := True\<rparr>)"
      by (simp add: lookup_register)
    with rel safe have "sched_refines (snd ?r) (reg(n \<mapsto> sp\<lparr>spec_online := True\<rparr>))"
      by (rule sched_refines_upd) (use info in \<open>simp add: info_refines_def\<close>)
    with Some info show ?thesis by (simp add: register_result prod_eq_iff)
  qed
qed

lemma refines_unregister:
  assumes rel: "sched_refines st reg"
  shows "fst (onUnregisterService n st) = (reg n \<noteq> None)"
    and "sched_refines (snd (onUnregisterService n st)) (reg(n := None))"
proof -
  note ok = sched_safe_ok [OF sched_refines_safe [OF rel]]
  show "fst (onUnregisterService n st) = (reg n \<noteq> None)"
    using sched_refines_lookup [OF rel, of n]
    by (auto simp: unregister_eq [OF ok] split: option.split elim: option.rel_cases)
  show "sched_refines (snd (onUnregisterService n st)) (reg(n := None))"
    using rel unregister_safe [OF sched_refines_safe [OF rel]] lookup_unregister [OF ok]
    by (rule sched_refines_upd) simp
qed

lemma refines_report:
  assumes rel: "sched_refines st reg"
  shows "fst (onReportServiceState n lCurrent lLast st) = (reg n \<noteq> None)"
    and "sched_refines (snd (onReportServiceState n lCurrent lLast st))
      (snd (spec_op (Report n lCurrent lLast) reg))"
proof -
  show "fst (onReportServiceState n lCurrent lLast st) = (reg n \<noteq> None)"
    using sched_refines_lookup [OF rel, of n]
    by (auto simp: onReportServiceState_def split: option.split elim: option.rel_cases)
  have "sched_refines (snd (onReportServiceState n lCurrent lLast st))
      (reg(n := map_option (\<lambda>sp. sp\<lparr>spec_current := lCurrent,
                 spec_last := (if lLast \<noteq> UNKNOWN then lLast else spec_last sp)\<rparr>) (reg n)))"
    using rel report_safe [OF sched_refines_safe [OF rel]] lookup_report
    by (rule sched_refines_upd)
      (use sched_refines_lookup [OF rel, of n] in \<open>cases rule: option.rel_cases; simp add: info_refines_def\<close>)
  then show "sched_refines (snd (onReportServiceState n lCurrent lLast st))
      (snd (spec_op (Report n lCurrent lLast) reg))" by simp
qed

lemma refines_failure:
  assumes rel: "sched_refines st reg"
  shows "\<exists>st'. onServiceFailure n st = Inr st' \<and>
    sched_refines st' (reg(n := map_option crash_spec (reg n)))"
proof -
  from sched_refines_safe [OF rel] obtain st' where st': "onServiceFailure n st = Inr st'"
    and safe: "sched_safe st'"
    and look: "lookup_service st' =
      (lookup_service st)(n := map_option failed_info (lookup_service st n))"
    by (rule failure_returns)
  have "sched_refines st' (reg(n := map_option crash_spec (reg n)))"
    using rel safe look
    by (rule sched_refines_upd)
      (use sched_refines_lookup [OF rel, of n] in
        \<open>cases rule: option.rel_cases; simp add: info_refines_crash\<close>)
  with st' show ?thesis by blast
qed

interpretation sched: refinement sched_exec spec_op sched_refines bounded_op
proof
  fix st reg x
  assume rel: "sched_refines st reg" and "bounded_op x"
  then show "\<exists>st'. sched_exec x st = Inr (fst (spec_op x reg), st') \<and>
      sched_refines st' (snd (spec_op x reg))"
  proof (cases x)
    case (Register n lvActions liInterval lPid)
    with rel \<open>bounded_op x\<close> show ?thesis using refines_register by simp
  next
    case (Unregister n)
    then show ?thesis using refines_unregister [OF rel, of n] by (simp add: prod_eq_iff)
  next
    case (Report n lCurrent lLast)
    then show ?thesis using refines_report [OF rel, of n lCurrent lLast] by (simp add: prod_eq_iff)
  next
    case (Failure n)
    then show ?thesis using refines_failure [OF rel, of n] by auto
  qed
qed

section \<open>Which policies are safe\<close>

lemma ring_size_iff: "ring_size n \<noteq> None \<longleftrightarrow> 1 \<le> n mod 256 \<and> n mod 256 \<le> 128"
proof -
  define q where "q = int (n mod 256)"
  have q: "0 \<le> q" "q < 256" by (simp_all add: q_def)
  have "(int n + 128) mod 256 = (q + 128) mod 256"
    by (simp add: q_def zmod_int mod_add_left_eq)
  also have "\<dots> = (if q < 128 then q + 128 else q - 128)"
  proof (cases "q < 128")
    case False
    then have "(q + 128) mod 256 = q - 128"
      using q by (intro int_mod_pos_eq [where q = 1]) simp_all
    with False show ?thesis by simp
  qed (use q in simp)
  finally have "(int n + 128) mod 256 = (if n mod 256 < 128 then int (n mod 256) + 128 else int (n mod 256) - 128)"
    by (auto simp: q_def)
  then show ?thesis by (auto simp: ring_size_def sint_i8_of_size Let_def)
qed

fun fail_times :: "nat \<Rightarrow> SServiceRecoveryInfo \<Rightarrow> SServiceRecoveryInfo result" where
  "fail_times 0 info = Inr info"
| "fail_times (Suc m) info = bind_result (fail_info info) (fail_times m)"

lemma fail_times_safe: "info_safe key info \<Longrightarrow> \<exists>info'. fail_times m info = Inr info'"
  by (induction m arbitrary: info) (simp_all add: fail_info_safe info_safe_failed [where key' = key])

lemma fail_info_cursor:
  assumes "size_of_i8 (next_cursor (length (recoveryActions info)) (recoveryActionCount info))
    < length (recoveryActions info)"
  obtains info' where "fail_info info = Inr info'" "recoveryActions info' = recoveryActions info"
    "recoveryActionCount info' = next_cursor (length (recoveryActions info)) (recoveryActionCount info)"
  using assms by (simp add: fail_info_def Let_def)

text \<open>With no ring the cursor counts up to 127 and then leaves the policy.\<close>

lemma next_cursor_no_ring:
  assumes "ring_size n = None" and "- 1 \<le> sint c"
  shows "sint (next_cursor n c) = (if sint c = 127 then - 128 else sint c + 1)"
  using assms sint_i8_upper [of c]
  by (auto simp: next_cursor_def Let_def i8_eq_iff sint_i8_succ ring_size_def split: if_splits)

lemma no_ring_runs_off:
  assumes "ring_size (length (recoveryActions info)) = None"
    and "128 < length (recoveryActions info)" and "length (recoveryActions info) < 2 ^ 63"
    and "sint (recoveryActionCount info) = 127 - int m" and "m \<le> 128"
  shows "fail_times (Suc m) info = Inl VectorOutOfRange"
  using assms
proof (induction m arbitrary: info)
  case 0
  then have "sint (next_cursor (length (recoveryActions info)) (recoveryActionCount info)) = - 128"
    by (simp add: next_cursor_no_ring)
  with 0 show ?case by (simp add: fail_info_def Let_def size_of_i8_neg)
next
  case (Suc m)
  let ?c = "next_cursor (length (recoveryActions info)) (recoveryActionCount info)"
  have c: "sint ?c = 127 - int m" using Suc.prems by (simp add: next_cursor_no_ring)
  have "size_of_i8 ?c < length (recoveryActions info)"
    using c Suc.prems by (simp add: size_of_i8_nonneg)
  then obtain info' where info': "fail_info info = Inr info'"
      "recoveryActions info' = recoveryActions info" "recoveryActionCount info' = ?c"
    by (rule fail_info_cursor)
  then have "fail_times (Suc m) info' = Inl VectorOutOfRange"
    using Suc.prems c by (intro Suc.IH) simp_all
  with info'(1) show ?case by simp
qed

lemma fail_times_defined_iff:
  assumes "lvActions \<noteq> []" and "length lvActions < 2 ^ 63"
  shows "(\<forall>m. \<exists>info. fail_times m (new_service_info n lvActions liInterval) = Inr info) \<longleftrightarrow>
    ring_size (length lvActions) \<noteq> None"
proof
  assume all: "\<forall>m. \<exists>info. fail_times m (new_service_info n lvActions liInterval) = Inr info"
  show "ring_size (length lvActions) \<noteq> None"
  proof
    assume none: "ring_size (length lvActions) = None"
    then have "128 < length lvActions"
      using assms(1) ring_size_small [of "length lvActions"] by (cases "length lvActions \<le> 128") (auto simp: Suc_le_eq)
    with none assms have "fail_times (Suc 128) (new_service_info n lvActions liInterval) = Inl VectorOutOfRange"
      by (intro no_ring_runs_off) (simp_all add: new_service_info_eq effective_policy_def)
    with all show False by (metis Inl_Inr_False)
  qed
next
  assume "ring_size (length lvActions) \<noteq> None"
  then have "info_safe n (new_service_info n lvActions liInterval)"
    using assms(1) by (intro info_safe_new) (simp add: policy_safe_def effective_policy_def)
  then show "\<forall>m. \<exists>info. fail_times m (new_service_info n lvActions liInterval) = Inr info"
    by (blast intro: fail_times_safe)
qed

text \<open>Repeated failures of one service, seen through the registry.\<close>

lemma run_failures:
  assumes "sched_ok st" and "lookup_service st n = Some info"
  shows "case fail_times m info of
      Inl e \<Rightarrow> run_ops sched_exec (replicate m (Failure n)) st = Inl e
    | Inr info' \<Rightarrow> \<exists>st'. run_ops sched_exec (replicate m (Failure n)) st = Inr (replicate m True, st')
        \<and> lookup_service st' = (lookup_service st)(n \<mapsto> info')"
  using assms
proof (induction m arbitrary: st info)
  case 0
  then show ?case by (simp add: fun_upd_idem)
next
  case (Suc m)
  show ?case
  proof (cases "fail_info info")
    case (Inl e)
    with Suc.prems show ?thesis by (simp add: failure_eq)
  next
    case (Inr info1)
    let ?st1 = "st\<lparr>m_MapServiceInfo := umap_modify n (\<lambda>_. info1) (m_MapServiceInfo st)\<rparr>"
    have eq: "onServiceFailure n st = Inr ?st1" using Suc.prems Inr by (simp add: failure_eq)
    have "sched_ok ?st1" using Suc.prems(1) eq by (rule failure_ok)
    moreover have look: "lookup_service ?st1 = (lookup_service st)(n \<mapsto> info1)"
      using Suc.prems(2) by (simp add: um.lookup_modify)
    ultimately show ?thesis
      using Suc.IH [of ?st1 info1] eq Inr look by (auto split: sum.splits)
  qed
qed

lemma run_failures_defined_iff:
  assumes "sched_ok st" and "lookup_service st n = Some info"
  shows "(\<exists>r. run_ops sched_exec (replicate m (Failure n)) st = Inr r) \<longleftrightarrow>
    (\<exists>info'. fail_times m info = Inr info')"
  using run_failures [OF assms, of m] by (auto split: sum.splits)

end
