(* ===== verification/Scheduler_Props.thy ===== *)
theory Scheduler_Props
  imports Scheduler_Spec
begin

text \<open>
  The properties of the registry: its refinement of the specification over arbitrary sequences
  of operations, what each entry point does on each of its branches, the action chosen by the
  n-th crash, which policies keep the failure handler defined, and that no result depends on
  the iteration order of the hash map.
\<close>

section \<open>Auxiliary facts\<close>

fun safe_op :: "sched_op \<Rightarrow> bool" where
  "safe_op (Register n lvActions liInterval lPid) = policy_safe lvActions"
| "safe_op _ = True"

lemma sched_exec_safe:
  "sched_safe st \<Longrightarrow> safe_op x \<Longrightarrow> \<exists>r st'. sched_exec x st = Inr (r, st') \<and> sched_safe st'"
proof (cases x)
  case (Failure n)
  assume "sched_safe st"
  then obtain st' where "onServiceFailure n st = Inr st'" "sched_safe st'" by (rule failure_returns)
  with Failure show ?thesis by auto
qed (auto simp: prod_eq_iff srs_inv)

lemma sched_exec_ok: "sched_ok st \<Longrightarrow> sched_exec x st = Inr (r, st') \<Longrightarrow> sched_ok st'"
  by (cases x) (auto simp: bind_result_Inr_iff failure_ok prod_eq_iff
      intro: register_ok unregister_ok report_ok)

lemma snapshot_of_refines:
  assumes "info_refines info sp" and "info_safe n info"
  shows "snapshot_of info =
    \<lparr>found = True, snap_isOnline = spec_online sp, snap_lastAction = spec_last sp,
     currentAction = spec_current sp,
     nextAction = (if length (policy sp) = 128 then hd (policy sp) else spec_next sp),
     attemptCount = sint (word_of_nat (crashes sp) :: u32)\<rparr>"
proof (cases "length (policy sp) = 128")
  case True
  have cur: "cursor_ok 128 (recoveryActionCount info)"
    using assms True by (simp add: info_safe_def info_refines_def)
  then have "peek_cursor 128 (recoveryActionCount info) = 0"
    using sint_i8_of_size_128 by (auto simp: peek_cursor_def elim: cursor_okE)
  moreover have "hd (policy sp) = policy sp ! 0"
    using True by (intro hd_conv_nth) auto
  ultimately show ?thesis
    using True assms by (simp add: snapshot_of_def info_refines_def)
next
  case False
  with assms have "nextAction (snapshot_of info) = spec_next sp"
    by (intro peek_refines) (auto simp: info_refines_def)
  with False assms show ?thesis by (simp add: snapshot_of_def info_refines_def)
qed

lemma getServiceState_refines:
  assumes "sched_refines st reg"
  shows "getServiceState n st =
    Inr (case reg n of None \<Rightarrow> no_snapshot
      | Some sp \<Rightarrow>
          \<lparr>found = True, snap_isOnline = spec_online sp, snap_lastAction = spec_last sp,
           currentAction = spec_current sp,
           nextAction = (if length (policy sp) = 128 then hd (policy sp) else spec_next sp),
           attemptCount = sint (word_of_nat (crashes sp) :: u32)\<rparr>)"
proof (cases "reg n")
  case None
  with sched_refines_lookup [OF assms, of n] show ?thesis
    by (simp add: getServiceState_def)
next
  case (Some sp)
  with sched_refines_lookup [OF assms, of n] obtain info
    where info: "lookup_service st n = Some info" "info_refines info sp"
    by (auto elim: option.rel_cases)
  note safe = sched_refines_safe [OF assms]
  from Some info snapshot_of_refines [OF info(2) sched_safe_info [OF safe info(1)]]
  show ?thesis by (simp add: getServiceState_safe [OF safe])
qed

text \<open>The specification after \<open>m\<close> crashes of one service.\<close>

lemma crash_spec_iterate:
  "(crash_spec ^^ m) sp =
     (if m = 0 then sp
      else sp\<lparr>crashes := crashes sp + m, spec_online := False, spec_last := CRASHED,
              spec_current := policy sp ! ((crashes sp + m - 1) mod length (policy sp))\<rparr>)"
  by (induction m) (simp_all add: crash_spec_def spec_next_def)

lemma run_spec_failures:
  "run_spec spec_op (replicate m (Failure n)) reg =
     (replicate m True, reg(n := map_option (crash_spec ^^ m) (reg n)))"
proof (induction m arbitrary: reg)
  case 0
  then show ?case by (simp add: fun_upd_idem option.map_id0 flip: id_def)
next
  case (Suc m)
  have "map_option (crash_spec ^^ m) (map_option crash_spec (reg n)) =
      map_option (crash_spec ^^ Suc m) (reg n)"
    by (simp add: option.map_comp funpow_Suc_right del: funpow.simps)
  with Suc show ?case by (simp add: fun_eq_iff del: funpow.simps)
qed

text \<open>A fresh registration followed by \<open>m\<close> crashes.\<close>

definition crash_run :: "string \<Rightarrow> RecoveryState list \<Rightarrow> i32 \<Rightarrow> pid_t \<Rightarrow> nat \<Rightarrow> sched_op list" where
  "crash_run n lvActions liInterval lPid m =
     Register n lvActions liInterval lPid # replicate m (Failure n)"

lemma crash_run_snapshot:
  assumes "n \<in> catalogue_names" and "length lvActions \<le> 128"
  obtains rs st where "run_ops sched_exec (crash_run n lvActions liInterval lPid m) init_scheduler = Inr (rs, st)"
    and "sched_refines st [n \<mapsto> (crash_spec ^^ m) (fresh_spec lvActions)]"
proof -
  let ?xs = "crash_run n lvActions liInterval lPid m"
  have "list_all bounded_op ?xs" using assms(2) by (simp add: crash_run_def list_all_iff)
  from sched.run_refines [OF sched_refines_init this]
  obtain st where st: "run_ops sched_exec ?xs init_scheduler = Inr (fst (run_spec spec_op ?xs Map.empty), st)"
    "sched_refines st (snd (run_spec spec_op ?xs Map.empty))" by blast
  have "snd (run_spec spec_op ?xs Map.empty) = [n \<mapsto> (crash_spec ^^ m) (fresh_spec lvActions)]"
    using assms(1) by (simp add: crash_run_def run_spec_failures)
  with st show thesis by (intro that) simp_all
qed

section \<open>Refinement\<close>

text \<open>
  C2: the registry implements its specification. Any sequence of registrations (with at most 128
  actions each), unregistrations, state reports and crash notifications, started on the empty
  registry, runs without undefined behaviour, returns to every caller what the specification
  returns, and ends in a state that represents the specification's.
\<close>

theorem scheduler_refines_spec:
  assumes "list_all bounded_op xs"
  shows "\<exists>st. run_ops sched_exec xs init_scheduler = Inr (fst (run_spec spec_op xs Map.empty), st) \<and>
    sched_refines st (snd (run_spec spec_op xs Map.empty))"
  using sched_refines_init assms by (rule sched.run_refines)

theorem scheduler_refines_spec_witness:
  "let xs = [Register ''AppA'' [RESTART, STOP] 5 42, Failure ''AppA'', Report ''AppA'' STOP UNKNOWN,
             Unregister ''AppB'']
   in fst (run_spec spec_op xs Map.empty) = [True, True, True, False] \<and>
      (\<exists>st. run_ops sched_exec xs init_scheduler = Inr ([True, True, True, False], st) \<and>
            sched_refines st (snd (run_spec spec_op xs Map.empty)))"
proof -
  let ?xs = "[Register ''AppA'' [RESTART, STOP] 5 42, Failure ''AppA'', Report ''AppA'' STOP UNKNOWN,
             Unregister ''AppB'']"
  have h: "list_all bounded_op ?xs" by simp
  have r: "fst (run_spec spec_op ?xs Map.empty) = [True, True, True, False]"
    by (simp add: catalogue_names_def g_MapServiceNames_def)
  from scheduler_refines_spec [OF h] show ?thesis unfolding Let_def r by simp
qed

text \<open>Policies that the query's comparison reads at their full size, and runs of such registrations.\<close>

fun short_op :: "sched_op \<Rightarrow> bool" where
  "short_op (Register n lvActions liInterval lPid) = (length lvActions \<le> 127)"
| "short_op _ = True"

definition spec_bounds :: "nat \<Rightarrow> registry_spec \<Rightarrow> bool" where
  "spec_bounds k reg \<longleftrightarrow> (\<forall>n sp. reg n = Some sp \<longrightarrow> length (policy sp) \<le> 127 \<and> crashes sp \<le> k)"

lemma spec_bounds_step: "spec_bounds k reg \<Longrightarrow> short_op x \<Longrightarrow> spec_bounds (Suc k) (snd (spec_op x reg))"
  by (cases x)
    (auto simp: spec_bounds_def fresh_spec_def effective_policy_def crash_spec_def intro: le_SucI
      split: option.splits if_splits)

lemma spec_bounds_run:
  "spec_bounds k reg \<Longrightarrow> list_all short_op xs \<Longrightarrow> spec_bounds (k + length xs) (snd (run_spec spec_op xs reg))"
proof (induction xs arbitrary: k reg)
  case (Cons x xs)
  then have "spec_bounds (Suc k) (snd (spec_op x reg))" and "list_all short_op xs"
    using spec_bounds_step [of k reg x] by simp_all
  then have "spec_bounds (Suc k + length xs) (snd (run_spec spec_op xs (snd (spec_op x reg))))" by (rule Cons.IH)
  then show ?case by (simp add: split_beta Let_def del: spec_op.simps)
qed simp

text \<open>What a query should return: no machine integers, and the action the next crash will apply.\<close>

definition spec_snapshot :: "registry_spec \<Rightarrow> string \<Rightarrow> SServiceSnapshot" where
  "spec_snapshot reg n =
     (case reg n of
        None \<Rightarrow> no_snapshot
      | Some sp \<Rightarrow>
          \<lparr>found = True, snap_isOnline = spec_online sp, snap_lastAction = spec_last sp,
           currentAction = spec_current sp, nextAction = spec_next sp, attemptCount = int (crashes sp)\<rparr>)"

text \<open>
  C30: what a query returns. After any sequence of fewer than \<open>2 ^ 31\<close> operations in which
  registrations bring at most 127 actions, the query for any name is defined and returns the
  snapshot of the specification: nothing for an unknown name, and for a registered one its liveness,
  last and current state, the number of its crashes, and as next action the very one the next crash
  will apply.
\<close>

theorem snapshot_refines_spec:
  assumes "list_all short_op xs" and "length xs < 2 ^ 31"
    and "run_ops sched_exec xs init_scheduler = Inr (rs, st)"
  shows "getServiceState n st = Inr (spec_snapshot (snd (run_spec spec_op xs Map.empty)) n)"
proof -
  let ?reg = "snd (run_spec spec_op xs Map.empty)"
  have "bounded_op x" if "short_op x" for x using that by (cases x) auto
  with assms(1) have "list_all bounded_op xs" by (auto simp: list_all_iff)
  with assms(3) have rel: "sched_refines st ?reg" using sched.run_refines [OF sched_refines_init] by fastforce
  have "spec_bounds (length xs) ?reg"
    using spec_bounds_run [of 0 Map.empty xs] assms(1) by (simp add: spec_bounds_def)
  then have "length (policy sp) \<le> 127" "sint (word_of_nat (crashes sp) :: u32) = int (crashes sp)" if "?reg n = Some sp" for sp
    using that assms(2) by (auto simp: spec_bounds_def signed_of_nat signed_take_bit_int_eq_self dest!: spec)
  then show ?thesis
    unfolding getServiceState_refines [OF rel] spec_snapshot_def by (auto split: option.split)
qed

theorem snapshot_refines_spec_witness:
  "getServiceState ''AppA''
     (snd (projr (run_ops sched_exec [Register ''AppA'' [RESTART, STOP] 5 42, Failure ''AppA'']
        init_scheduler))) =
   Inr \<lparr>found = True, snap_isOnline = False, snap_lastAction = CRASHED, currentAction = RESTART,
        nextAction = STOP, attemptCount = 1\<rparr>"
proof -
  let ?xs = "[Register ''AppA'' [RESTART, STOP] 5 42, Failure ''AppA'']"
  have h: "list_all short_op ?xs" and h': "list_all bounded_op ?xs" and len: "length ?xs < 2 ^ 31" by simp_all
  obtain rs st where run: "run_ops sched_exec ?xs init_scheduler = Inr (rs, st)"
    using sched.run_refines [OF sched_refines_init h'] by blast
  have reg: "snd (run_spec spec_op ?xs Map.empty) = [''AppA'' \<mapsto> crash_spec (fresh_spec [RESTART, STOP])]"
    by (simp add: catalogue_names_def g_MapServiceNames_def)
  show ?thesis
    using snapshot_refines_spec [OF h len run, of "''AppA''"] unfolding run reg
    by (simp add: spec_snapshot_def crash_spec_def fresh_spec_def effective_policy_def spec_next_def)
qed

text \<open>
  C5: the recovery sequence. A service registered with a policy of at most 128 actions and
  crashed \<open>m > 0\<close> times is offline, last seen crashed, executing the policy entry number
  \<open>m - 1\<close> modulo the policy's length, and (while the counter fits) counts \<open>m\<close> attempts.
\<close>

theorem nth_crash_action:
  assumes "n \<in> catalogue_names" and "lvActions \<noteq> []" and "length lvActions \<le> 128"
    and "0 < m" and "m < 2 ^ 31"
  shows "\<exists>rs st snap.
    run_ops sched_exec (crash_run n lvActions liInterval lPid m) init_scheduler = Inr (rs, st) \<and>
    getServiceState n st = Inr snap \<and> found snap \<and> \<not> snap_isOnline snap \<and>
    snap_lastAction snap = CRASHED \<and>
    currentAction snap = lvActions ! ((m - 1) mod length lvActions) \<and> attemptCount snap = int m"
proof -
  obtain rs st where st:
      "run_ops sched_exec (crash_run n lvActions liInterval lPid m) init_scheduler = Inr (rs, st)"
      "sched_refines st [n \<mapsto> (crash_spec ^^ m) (fresh_spec lvActions)]"
    using assms(1,3) by (rule crash_run_snapshot)
  have "sint (word_of_nat m :: u32) = int m"
    using assms(5) by (simp add: signed_of_nat signed_take_bit_int_eq_self)
  with st assms(2,4) show ?thesis
    by (simp add: getServiceState_refines [OF st(2)] crash_spec_iterate fresh_spec_def effective_policy_def)
qed

theorem nth_crash_action_witness:
  "\<exists>rs st snap.
    run_ops sched_exec (crash_run ''AppK'' [RESTART, STOP] 0 (- 1) 3) init_scheduler = Inr (rs, st) \<and>
    getServiceState ''AppK'' st = Inr snap \<and> found snap \<and> \<not> snap_isOnline snap \<and>
    snap_lastAction snap = CRASHED \<and> currentAction snap = RESTART \<and> attemptCount snap = 3"
proof -
  have h: "''AppK'' \<in> catalogue_names" by (simp add: catalogue_names_def g_MapServiceNames_def)
  have e: "(2 :: nat) mod Suc (Suc 0) = 0" by code_simp
  show ?thesis using nth_crash_action [OF h, of "[RESTART, STOP]" 3 0 "- 1"] by (simp add: e)
qed

text \<open>
  C4: which policies keep the failure handler defined. With any number of crashes, a service
  registered with \<open>k\<close> actions stays inside its policy vector exactly when \<open>k\<close> modulo 256 lies
  between 1 and 128: the size is compared with an 8-bit signed cursor. In particular every
  policy of up to 128 actions is safe, and one of 129 to 256 actions is accepted at
  registration but makes the handler read outside the vector.
\<close>

theorem failure_defined_iff:
  assumes "n \<in> catalogue_names" and "lvActions \<noteq> []" and "length lvActions < 2 ^ 63"
  shows "(\<forall>m. \<exists>r. run_ops sched_exec (crash_run n lvActions liInterval lPid m) init_scheduler = Inr r)
    \<longleftrightarrow> 1 \<le> length lvActions mod 256 \<and> length lvActions mod 256 \<le> 128"
proof -
  let ?st = "snd (onRegisterService n lvActions liInterval lPid init_scheduler)"
  let ?info = "new_service_info n lvActions liInterval"
  have ok: "sched_ok ?st" by (simp add: register_ok sched_safe_ok init_scheduler_safe)
  have look: "lookup_service ?st n = Some ?info" using assms(1) by (simp add: lookup_register)
  have "(\<exists>r. run_ops sched_exec (crash_run n lvActions liInterval lPid m) init_scheduler = Inr r) \<longleftrightarrow>
      (\<exists>r. run_ops sched_exec (replicate m (Failure n)) ?st = Inr r)" for m
    by (auto simp: crash_run_def bind_result_Inr_iff split_beta)
  with run_failures_defined_iff [OF ok look] fail_times_defined_iff [OF assms(2,3)] ring_size_iff
  show ?thesis by simp
qed

theorem failure_defined_iff_witness:
  "\<not> (\<forall>m. \<exists>r. run_ops sched_exec (crash_run ''AppA'' (replicate 200 RESTART) 0 0 m) init_scheduler = Inr r)"
proof -
  have h: "''AppA'' \<in> catalogue_names" by (simp add: catalogue_names_def g_MapServiceNames_def)
  show ?thesis using failure_defined_iff [OF h, of "replicate 200 RESTART" 0 0] by simp
qed

section \<open>Registration\<close>

text \<open>
  C32: in a registry whose cursors are inside their policies, a first registration under a
  catalogue name, with no policy or with one the 8-bit cursor can walk, succeeds, the service is then online with no
  attempts and its first action (of the given policy, or of the default policy when none is
  given) announced next, and no other entry changes.
\<close>

theorem register_fresh:
  assumes "sched_safe st" and "lookup_service st n = None" and "n \<in> catalogue_names"
    and "policy_safe lvActions"
  shows "fst (onRegisterService n lvActions liInterval lPid st)
    \<and> getServiceState n (snd (onRegisterService n lvActions liInterval lPid st)) =
        Inr \<lparr>found = True, snap_isOnline = True, snap_lastAction = UNKNOWN, currentAction = UNKNOWN,
             nextAction = hd (if lvActions = [] then [RESTART, RESTART, STOP, DISABLE] else lvActions),
             attemptCount = 0\<rparr>
    \<and> (\<forall>k. k \<noteq> n \<longrightarrow>
         getServiceState k (snd (onRegisterService n lvActions liInterval lPid st)) = getServiceState k st)"
proof -
  have peek: "sint (peek_cursor k (- 1)) = 0" for k by (simp add: peek_cursor_def)
  have hd: "effective_policy lvActions ! 0 =
      hd (if lvActions = [] then [RESTART, RESTART, STOP, DISABLE] else lvActions)"
    by (auto simp: effective_policy_def hd_conv_nth)
  show ?thesis
    using assms register_safe [OF assms(1,4)]
    by (simp add: register_result getServiceState_safe lookup_register snapshot_of_def
        new_service_info_eq peek hd)
qed

theorem register_fresh_witness:
  "getServiceState ''AppB'' (snd (onRegisterService ''AppB'' [] (- 1) 7 init_scheduler)) =
     Inr \<lparr>found = True, snap_isOnline = True, snap_lastAction = UNKNOWN, currentAction = UNKNOWN,
          nextAction = RESTART, attemptCount = 0\<rparr>"
proof -
  have h: "''AppB'' \<in> catalogue_names" by (simp add: catalogue_names_def g_MapServiceNames_def)
  show ?thesis
    using register_fresh [OF init_scheduler_safe lookup_init h policy_safe_small [of "[]"], of "- 1" 7]
    by simp
qed

text \<open>
  A registration of a name that is already registered succeeds, marks the service online and
  changes nothing else: crash count, cursor, states and the stored policy stay, whatever policy,
  interval and pid the second call passes.
\<close>

lemma reregister_keeps_policy:
  assumes "lookup_service st n = Some info"
  shows "fst (onRegisterService n lvActions liInterval lPid st)
    \<and> lookup_service (snd (onRegisterService n lvActions liInterval lPid st)) =
        (lookup_service st)(n \<mapsto> info\<lparr>isOnline := True\<rparr>)"
  using assms by (simp add: register_result lookup_register)

lemma sched_exec_pid:
  assumes "sched_ok st" and "sched_exec x st = Inr (r, st')"
    and "\<And>n info. lookup_service st n = Some info \<Longrightarrow> pid info = - 1"
    and "lookup_service st' n = Some info"
  shows "pid info = - 1"
proof (cases x)
  case (Register k lvActions liInterval lPid)
  then have "st' = snd (onRegisterService k lvActions liInterval lPid st)" using assms(2) by simp
  with assms(3,4) show ?thesis
    by (auto simp: lookup_register new_service_info_eq split: option.splits if_splits)
next
  case (Unregister k)
  then have "st' = snd (onUnregisterService k st)" using assms(2) by simp
  with assms(1,3,4) show ?thesis by (auto simp: lookup_unregister split: if_splits)
next
  case (Report k lCurrent lLast)
  then have "st' = snd (onReportServiceState k lCurrent lLast st)" using assms(2) by simp
  with assms(3,4) show ?thesis by (auto simp: lookup_report split: if_splits)
next
  case (Failure k)
  then have "onServiceFailure k st = Inr st'" using assms(2) by (auto simp: bind_result_Inr_iff)
  from lookup_failure [OF assms(1) this] assms(3,4) show ?thesis
    by (auto simp: fail_info_def Let_def bind_result_Inr_iff split: option.splits if_splits sum.splits)
qed

lemma run_pid:
  assumes "sched_ok st" and "run_ops sched_exec xs st = Inr (rs, st')"
    and "\<And>n info. lookup_service st n = Some info \<Longrightarrow> pid info = - 1"
    and "lookup_service st' n = Some info"
  shows "pid info = - 1"
  using assms
proof (induction xs arbitrary: st rs)
  case Nil
  then show ?case by simp
next
  case (Cons x xs)
  then obtain r st1 rs1 where 1: "sched_exec x st = Inr (r, st1)" "run_ops sched_exec xs st1 = Inr (rs1, st')"
    by (auto simp: bind_result_Inr_iff)
  show ?case
    using sched_exec_ok [OF Cons.prems(1) 1(1)] 1(2) sched_exec_pid [OF Cons.prems(1) 1(1) Cons.prems(3)]
      Cons.prems(4)
    by (rule Cons.IH) blast
qed

text \<open>
  C36: the pid handed to a registration is never recorded: after any sequence of operations every
  entry still has the pid \<open>-1\<close> of an unknown process.
\<close>

theorem pid_never_recorded:
  assumes "run_ops sched_exec xs init_scheduler = Inr (rs, st)" and "lookup_service st n = Some info"
  shows "pid info = - 1"
  using sched_safe_ok [OF init_scheduler_safe] assms(1) _ assms(2) by (rule run_pid) simp

theorem pid_never_recorded_witness:
  "pid (new_service_info ''AppA'' [STOP] 0) = - 1 \<and>
   lookup_service (snd (onRegisterService ''AppA'' [STOP] 0 4711 init_scheduler)) ''AppA'' =
     Some (new_service_info ''AppA'' [STOP] 0)"
proof -
  let ?st = "snd (onRegisterService ''AppA'' [STOP] 0 4711 init_scheduler)"
  have r: "run_ops sched_exec [Register ''AppA'' [STOP] 0 4711] init_scheduler = Inr ([True], ?st)"
    by (simp add: split_beta register_result catalogue_names_def g_MapServiceNames_def)
  have l: "lookup_service ?st ''AppA'' = Some (new_service_info ''AppA'' [STOP] 0)"
    by (simp add: lookup_register catalogue_names_def g_MapServiceNames_def)
  from pid_never_recorded [OF r l] l show ?thesis by simp
qed

section \<open>Unregistration and state reports\<close>

text \<open>
  A state report is accepted exactly for registered services. It sets the current state; it
  sets the last state unless the caller reports \<^verbatim>\<open>UNKNOWN\<close>, in which case the last state the
  scheduler tracks (\<^verbatim>\<open>CRASHED\<close> after a peer loss) survives; nothing else changes.
\<close>

lemma report_updates_states:
  shows "fst (onReportServiceState n lCurrent lLast st) = (lookup_service st n \<noteq> None)
    \<and> lookup_service (snd (onReportServiceState n lCurrent lLast st)) =
        (case lookup_service st n of
           None \<Rightarrow> lookup_service st
         | Some info \<Rightarrow> (lookup_service st)(n \<mapsto>
             info\<lparr>currentRecoveryState := lCurrent,
                  lastAction := (if lLast = UNKNOWN then lastAction info else lLast)\<rparr>))"
  by (auto simp: onReportServiceState_def um.lookup_modify split: option.split)

section \<open>Crashes\<close>

text \<open>
  Every operation keeps the registry's invariant (entries stored under their own catalogue
  name, non-empty policies, cursors inside their ring), and none of them meets undefined
  behaviour, provided registrations bring a policy whose size gives the cursor a ring.
\<close>

lemma operations_keep_invariant:
  assumes "sched_safe st" and "safe_op x"
  shows "\<exists>r st'. sched_exec x st = Inr (r, st') \<and> sched_safe st'"
  using assms by (rule sched_exec_safe)

text \<open>
  A crash notification for a registered service takes it offline, records \<^verbatim>\<open>CRASHED\<close>,
  counts the crash and moves it to the action the preceding query announced as next; every other
  service is untouched, and a notification for an unknown service changes nothing.
\<close>

lemma failure_applies_announced_action:
  assumes "sched_safe st" and "lookup_service st n = Some info"
    and "length (recoveryActions info) \<le> 127"
  shows "\<exists>st' snap snap'. onServiceFailure n st = Inr st'
    \<and> getServiceState n st = Inr snap \<and> getServiceState n st' = Inr snap'
    \<and> currentAction snap' = nextAction snap \<and> snap_lastAction snap' = CRASHED
    \<and> \<not> snap_isOnline snap' \<and> attemptCount snap' = sint (crashCount info + 1)
    \<and> (\<forall>k. k \<noteq> n \<longrightarrow> lookup_service st' k = lookup_service st k)"
proof -
  from assms(1) obtain st' where st': "onServiceFailure n st = Inr st'" "sched_safe st'"
    "lookup_service st' = (lookup_service st)(n := map_option failed_info (lookup_service st n))"
    by (rule failure_returns)
  let ?len = "length (recoveryActions info)"
  have safe: "cursor_ok ?len (recoveryActionCount info)"
    using sched_safe_info [OF assms(1,2)] by (simp add: info_safe_def)
  have "recoveryActions info \<noteq> []"
    using sched_ok_info [OF sched_safe_ok [OF assms(1)] assms(2)] by (simp add: info_ok_def)
  then have "0 < sint (i8_of_size ?len)" using assms(3) by (simp add: sint_i8_of_size_small)
  then have "peek_cursor ?len (recoveryActionCount info) = next_cursor ?len (recoveryActionCount info)"
    using safe by (intro peek_cursor_eq_next)
  then show ?thesis
    using st' assms(1,2)
    by (simp add: getServiceState_safe snapshot_of_def failed_info_def Let_def)
qed

text \<open>
  C29: with a policy of exactly 128 actions the query and the failure handler disagree: whatever
  the crash count \<open>m\<close>, the query announces the first action, while crash \<open>m + 1\<close> applies entry
  \<open>m\<close> modulo 128.
\<close>

theorem announcement_wrong_at_128:
  assumes "n \<in> catalogue_names" and "length lvActions = 128"
  shows "\<exists>rs st snap rs' st' snap'.
    run_ops sched_exec (crash_run n lvActions liInterval lPid m) init_scheduler = Inr (rs, st) \<and>
    getServiceState n st = Inr snap \<and> nextAction snap = lvActions ! 0 \<and>
    run_ops sched_exec (crash_run n lvActions liInterval lPid (Suc m)) init_scheduler = Inr (rs', st') \<and>
    getServiceState n st' = Inr snap' \<and> currentAction snap' = lvActions ! (m mod 128)"
proof -
  have ne: "lvActions \<noteq> []" using assms(2) by auto
  have len: "length lvActions \<le> 128" using assms(2) by simp
  obtain rs st where 1:
      "run_ops sched_exec (crash_run n lvActions liInterval lPid m) init_scheduler = Inr (rs, st)"
      "sched_refines st [n \<mapsto> (crash_spec ^^ m) (fresh_spec lvActions)]"
    using assms(1) len by (rule crash_run_snapshot)
  obtain rs' st' where 2:
      "run_ops sched_exec (crash_run n lvActions liInterval lPid (Suc m)) init_scheduler = Inr (rs', st')"
      "sched_refines st' [n \<mapsto> (crash_spec ^^ Suc m) (fresh_spec lvActions)]"
    using assms(1) len by (rule crash_run_snapshot)
  have "length (policy ((crash_spec ^^ m) (fresh_spec lvActions))) = 128"
    and "hd (policy ((crash_spec ^^ m) (fresh_spec lvActions))) = lvActions ! 0"
    and "spec_current ((crash_spec ^^ Suc m) (fresh_spec lvActions)) = lvActions ! (m mod 128)"
    using assms(2) ne
    by (simp_all add: crash_spec_iterate fresh_spec_def effective_policy_def hd_conv_nth del: funpow.simps)
  with 1 2 getServiceState_refines [OF 1(2), of n] getServiceState_refines [OF 2(2), of n]
  show ?thesis by (simp del: funpow.simps)
qed

theorem announcement_wrong_at_128_witness:
  "\<exists>rs st snap rs' st' snap'.
    run_ops sched_exec (crash_run ''AppA'' (STOP # replicate 127 RESTART) 0 0 1) init_scheduler = Inr (rs, st) \<and>
    getServiceState ''AppA'' st = Inr snap \<and> nextAction snap = STOP \<and>
    run_ops sched_exec (crash_run ''AppA'' (STOP # replicate 127 RESTART) 0 0 2) init_scheduler = Inr (rs', st') \<and>
    getServiceState ''AppA'' st' = Inr snap' \<and> currentAction snap' = RESTART"
proof -
  have h: "''AppA'' \<in> catalogue_names" by (simp add: catalogue_names_def g_MapServiceNames_def)
  have e: "(STOP # replicate 127 RESTART) ! (1 mod 128) = RESTART" "(STOP # replicate 127 RESTART) ! 0 = STOP"
    by simp_all
  have l: "length (STOP # replicate 127 RESTART) = 128" by simp
  show ?thesis
    using announcement_wrong_at_128 [OF h l, of 0 0 1] unfolding e by (simp only: Suc_1)
qed

text \<open>
  \<^verbatim>\<open>DISABLE\<close> does not end recovery. Under the default policy the fourth crash selects
  \<^verbatim>\<open>DISABLE\<close>, the query then announces \<^verbatim>\<open>RESTART\<close>, and the fifth crash selects it.
\<close>

lemma disable_is_not_final:
  assumes "n \<in> catalogue_names"
  shows "\<exists>rs st snap rs' st' snap'.
    run_ops sched_exec (crash_run n [] liInterval lPid 4) init_scheduler = Inr (rs, st) \<and>
    getServiceState n st = Inr snap \<and> currentAction snap = DISABLE \<and> nextAction snap = RESTART \<and>
    run_ops sched_exec (crash_run n [] liInterval lPid 5) init_scheduler = Inr (rs', st') \<and>
    getServiceState n st' = Inr snap' \<and> currentAction snap' = RESTART"
proof -
  have len: "length ([] :: RecoveryState list) \<le> 128" by simp
  obtain rs st where 1: "run_ops sched_exec (crash_run n [] liInterval lPid 4) init_scheduler = Inr (rs, st)"
      "sched_refines st [n \<mapsto> (crash_spec ^^ 4) (fresh_spec [])]"
    using assms len by (rule crash_run_snapshot)
  obtain rs' st' where 2: "run_ops sched_exec (crash_run n [] liInterval lPid 5) init_scheduler = Inr (rs', st')"
      "sched_refines st' [n \<mapsto> (crash_spec ^^ 5) (fresh_spec [])]"
    using assms len by (rule crash_run_snapshot)
  have "length (policy ((crash_spec ^^ 4) (fresh_spec []))) \<noteq> 128"
    and "spec_current ((crash_spec ^^ 4) (fresh_spec [])) = DISABLE"
    and "spec_next ((crash_spec ^^ 4) (fresh_spec [])) = RESTART"
    and "spec_current ((crash_spec ^^ 5) (fresh_spec [])) = RESTART"
    by code_simp+
  with 1 2 getServiceState_refines [OF 1(2), of n] getServiceState_refines [OF 2(2), of n]
  show ?thesis by simp
qed

section \<open>Iteration order\<close>

definition same_registry :: "CRecoveryScheduler \<Rightarrow> CRecoveryScheduler \<Rightarrow> bool" where
  "same_registry st1 st2 \<longleftrightarrow> umap_eq (m_MapServiceInfo st1) (m_MapServiceInfo st2)"

lemma same_registry_lookup: "same_registry st1 st2 \<Longrightarrow> lookup_service st1 = lookup_service st2"
  by (simp add: same_registry_def umap_eq_find)

lemma same_registry_ok: "same_registry st1 st2 \<Longrightarrow> sched_ok st1 \<Longrightarrow> sched_ok st2"
  by (simp add: same_registry_def sched_ok_def umap_eq_iff um.every_iff)

lemma same_registry_register:
  "same_registry st1 st2 \<Longrightarrow>
   rel_prod (=) same_registry (onRegisterService n lvActions liInterval lPid st1)
     (onRegisterService n lvActions liInterval lPid st2)"
  using same_registry_lookup [of st1 st2]
  by (auto simp: onRegisterService_def same_registry_def split: option.split intro: umap_eq_intros)

lemma same_registry_unregister:
  "same_registry st1 st2 \<Longrightarrow> sched_ok st1 \<Longrightarrow>
   rel_prod (=) same_registry (onUnregisterService n st1) (onUnregisterService n st2)"
  using same_registry_lookup [of st1 st2] same_registry_ok [of st1 st2]
  by (auto simp: unregister_eq same_registry_def split: option.split intro: umap_eq_intros)

lemma same_registry_report:
  "same_registry st1 st2 \<Longrightarrow>
   rel_prod (=) same_registry (onReportServiceState n lCurrent lLast st1) (onReportServiceState n lCurrent lLast st2)"
  using same_registry_lookup [of st1 st2]
  by (auto simp: onReportServiceState_def same_registry_def split: option.split intro: umap_eq_intros)

lemma same_registry_failure:
  assumes "same_registry st1 st2" and "sched_ok st1"
  shows "rel_sum (=) same_registry (onServiceFailure n st1) (onServiceFailure n st2)"
proof -
  note ok2 = same_registry_ok [OF assms] and look = same_registry_lookup [OF assms(1)]
  show ?thesis
  proof (cases "lookup_service st2 n")
    case None
    with assms ok2 look show ?thesis by (simp add: failure_eq)
  next
    case (Some info)
    with assms ok2 look show ?thesis
      by (cases "fail_info info") (auto simp: failure_eq same_registry_def intro: umap_eq_intros)
  qed
qed

text \<open>
  C33: the scheduler never depends on the order in which its hash map iterates. Two registries
  that satisfy the registry invariant (every record under its own catalogue name, non-empty
  policies) with the same entries in any two orders give the same answer to every operation and query, or
  both meet the same undefined behaviour, and stay equal up to order.
\<close>

theorem iteration_order_irrelevant:
  assumes "same_registry st1 st2" and "sched_ok st1"
  shows "rel_sum (=) (rel_prod (=) same_registry) (sched_exec x st1) (sched_exec x st2)
    \<and> getServiceState n st1 = getServiceState n st2"
proof
  show "getServiceState n st1 = getServiceState n st2"
    by (simp add: getServiceState_def same_registry_lookup [OF assms(1)])
  show "rel_sum (=) (rel_prod (=) same_registry) (sched_exec x st1) (sched_exec x st2)"
  proof (cases x)
    case (Failure k)
    from same_registry_failure [OF assms, of k] show ?thesis
      by (cases "onServiceFailure k st1"; cases "onServiceFailure k st2") (simp_all add: Failure)
  qed (use assms in \<open>auto intro: same_registry_register same_registry_unregister same_registry_report\<close>)
qed

theorem iteration_order_irrelevant_witness:
  "let a = new_service_info ''AppA'' [STOP] 0; b = new_service_info ''AppB'' [] 0
   in rel_sum (=) (rel_prod (=) same_registry)
       (sched_exec (Failure ''AppB'') \<lparr>m_MapServiceInfo = [(''AppA'', a), (''AppB'', b)]\<rparr>)
       (sched_exec (Failure ''AppB'') \<lparr>m_MapServiceInfo = [(''AppB'', b), (''AppA'', a)]\<rparr>)"
proof -
  let ?a = "new_service_info ''AppA'' [STOP] 0" and ?b = "new_service_info ''AppB'' [] 0"
  let ?s = "\<lparr>m_MapServiceInfo = [(''AppA'', ?a), (''AppB'', ?b)]\<rparr>"
    and ?t = "\<lparr>m_MapServiceInfo = [(''AppB'', ?b), (''AppA'', ?a)]\<rparr>"
  have eq: "same_registry ?s ?t"
    by (auto simp: same_registry_def umap_eq_def umap_ok_def)
  have ok: "sched_ok ?s"
    by (simp add: sched_ok_def umap_ok_def umap_all_def info_ok_def new_service_info_eq
        effective_policy_def catalogue_names_def g_MapServiceNames_def)
  from iteration_order_irrelevant [OF eq ok] show ?thesis unfolding Let_def by blast
qed

end
