(* ===== verification/Stub.thy ===== *)
theory Stub
  imports Umap Common_Types
begin

text \<open>
  The D-Bus skeleton, \<^verbatim>\<open>CRecoverySchedulerStubImpl\<close>
  (\<^verbatim>\<open>lib_srs/inc/CRecoverySchedulerStubImpl.hpp\<close>, \<^verbatim>\<open>lib_srs/src/CRecoverySchedulerStubImpl.cpp\<close>):
  the three RPC handlers, the peer-loss handler, the pid query, and the registration with the
  runtime. It is agnostic of the scheduler: the callbacks are functions on an owner state of any
  type, absent until \<^verbatim>\<open>setCallbacks\<close> installs them. CommonAPI and libdbus are not part of the
  repository; what the stub calls of them is the record \<open>capi\<close>, an argument of every operation
  that uses it.
\<close>

section \<open>The environment: CommonAPI and the bus\<close>

text \<open>The answer to \<^verbatim>\<open>GetConnectionUnixProcessID\<close>: a null message, an error message, or a pid.\<close>

datatype pid_reply = NullReply | ErrorReply | PidReply u32

record ('client, 'dbus, 'conn, 'msg, 'tok) capi =
  asDBusClientId :: "'client \<Rightarrow> 'dbus option"                  \<comment> \<open>\<^verbatim>\<open>dynamic_pointer_cast<DBusClientId>\<close>\<close>
  getDBusId :: "'dbus \<Rightarrow> string option"                        \<comment> \<open>null pointer as \<open>None\<close>\<close>
  isAlive :: "'conn \<Rightarrow> bool"                                   \<comment> \<open>a weak pointer to it can be locked\<close>
  sendPidQuery :: "'conn \<Rightarrow> string \<Rightarrow> pid_reply"
  readNameOwnerChanged :: "'msg \<Rightarrow> string \<times> string \<times> string"  \<comment> \<open>a failed read leaves a string empty\<close>
  runtimeAvailable :: bool                                     \<comment> \<open>\<^verbatim>\<open>Runtime::get()\<close> is not null\<close>
  runtimeRegister :: "string \<Rightarrow> string \<Rightarrow> bool"
  stubAdapterConnection :: "'conn option option"               \<comment> \<open>the D-Bus adapter, and its connection\<close>
  addSignalMemberHandler :: "'conn \<Rightarrow> string \<Rightarrow> string \<Rightarrow> string \<Rightarrow> string \<Rightarrow> bool \<Rightarrow> 'tok"

section \<open>Data\<close>

record PeerInfo =
  uniqueBusName :: string
  peer_pid :: pid_t

type_synonym 'w CallbackRegister = "string \<Rightarrow> RecoveryState list \<Rightarrow> i32 \<Rightarrow> pid_t \<Rightarrow> 'w \<Rightarrow> bool \<times> 'w"
type_synonym 'w CallbackUnregister = "string \<Rightarrow> 'w \<Rightarrow> bool \<times> 'w"
type_synonym 'w CallbackFailure = "string \<Rightarrow> 'w \<Rightarrow> 'w result"
type_synonym 'w CallbackReport = "string \<Rightarrow> RecoveryState \<Rightarrow> RecoveryState \<Rightarrow> 'w \<Rightarrow> bool \<times> 'w"

record ('w, 'conn, 'tok) CRecoverySchedulerStubImpl =
  m_ServiceToBusName :: "(string, PeerInfo) umap"
  m_SignalConn :: "'conn option"
  m_SignalToken :: "'tok option"
  cb_onRegisterService :: "'w CallbackRegister option"
  cb_onUnregisterService :: "'w CallbackUnregister option"
  cb_onServiceFailure :: "'w CallbackFailure option"
  cb_onReportServiceState :: "'w CallbackReport option"

abbreviation lookup_peer :: "('w, 'conn, 'tok) CRecoverySchedulerStubImpl \<Rightarrow> string \<Rightarrow> PeerInfo option" where
  "lookup_peer stub \<equiv> umap_find (m_ServiceToBusName stub)"

definition new_stub :: "('w, 'conn, 'tok) CRecoverySchedulerStubImpl" where
  "new_stub =
     \<lparr>m_ServiceToBusName = [], m_SignalConn = None, m_SignalToken = None,
      cb_onRegisterService = None, cb_onUnregisterService = None, cb_onServiceFailure = None,
      cb_onReportServiceState = None\<rparr>"

definition setCallbacks ::
  "'w CallbackRegister option \<Rightarrow> 'w CallbackUnregister option \<Rightarrow> 'w CallbackFailure option \<Rightarrow>
   'w CallbackReport option \<Rightarrow> ('w, 'conn, 'tok) CRecoverySchedulerStubImpl \<Rightarrow>
   ('w, 'conn, 'tok) CRecoverySchedulerStubImpl"
where
  "setCallbacks onRegister onUnregister onFailure onReport stub =
     stub\<lparr>cb_onRegisterService := onRegister, cb_onUnregisterService := onUnregister,
          cb_onServiceFailure := onFailure, cb_onReportServiceState := onReport\<rparr>"

section \<open>Operations\<close>

text \<open>The \<^verbatim>\<open>strdup\<close> copy of the identifier is taken to succeed.\<close>

definition extractDbusUniqueName ::
  "('client, 'dbus, 'conn, 'msg, 'tok) capi \<Rightarrow> 'client option \<Rightarrow> string"
where
  "extractDbusUniqueName env client =
     (let dbusClient = Option.bind client (asDBusClientId env);
          lDBusid = Option.bind dbusClient (getDBusId env)
      in case lDBusid of None \<Rightarrow> [] | Some ident \<Rightarrow> ident)"

definition lock_conn :: "('client, 'dbus, 'conn, 'msg, 'tok) capi \<Rightarrow>
    ('w, 'conn, 'tok) CRecoverySchedulerStubImpl \<Rightarrow> 'conn option" where
  "lock_conn env stub =
     (case m_SignalConn stub of None \<Rightarrow> None | Some conn \<Rightarrow> if isAlive env conn then Some conn else None)"

definition queryUnixPidForBusName ::
  "('client, 'dbus, 'conn, 'msg, 'tok) capi \<Rightarrow> ('w, 'conn, 'tok) CRecoverySchedulerStubImpl \<Rightarrow>
   string \<Rightarrow> pid_t"
where
  "queryUnixPidForBusName env stub busName =
     (case lock_conn env stub of
        None \<Rightarrow> - 1
      | Some lDBus \<Rightarrow>
          if busName \<noteq> []
          then (case sendPidQuery env lDBus busName of
                  NullReply \<Rightarrow> - 1
                | ErrorReply \<Rightarrow> - 1
                | PidReply lRawPid \<Rightarrow> lRawPid)
          else - 1)"

definition registerService ::
  "('client, 'dbus, 'conn, 'msg, 'tok) capi \<Rightarrow> 'client option \<Rightarrow> string \<Rightarrow> wire_state list \<Rightarrow> i32 \<Rightarrow>
   ('w, 'conn, 'tok) CRecoverySchedulerStubImpl \<Rightarrow> 'w \<Rightarrow>
   RegisterResult \<times> ('w, 'conn, 'tok) CRecoverySchedulerStubImpl \<times> 'w"
where
  "registerService env client lStrName wireActions liInterval stub w =
     (let lActions = map RecoveryState_of_wire wireActions;
          lUniqueBusName = extractDbusUniqueName env client;
          lPid = queryUnixPidForBusName env stub lUniqueBusName;
          (isOk, w') = (case cb_onRegisterService stub of
                          Some onRegister \<Rightarrow> onRegister lStrName lActions liInterval lPid w
                        | None \<Rightarrow> (False, w));
          stub' = (if isOk \<and> lUniqueBusName \<noteq> []
                   then stub\<lparr>m_ServiceToBusName :=
                          umap_assign lStrName \<lparr>uniqueBusName = lUniqueBusName, peer_pid = lPid\<rparr>
                            (m_ServiceToBusName stub)\<rparr>
                   else stub)
      in (if isOk then Register_OK else INVALID_NAME, stub', w'))"

definition unregisterService ::
  "'client option \<Rightarrow> string \<Rightarrow> ('w, 'conn, 'tok) CRecoverySchedulerStubImpl \<Rightarrow> 'w \<Rightarrow>
   UnregisterResult \<times> ('w, 'conn, 'tok) CRecoverySchedulerStubImpl \<times> 'w"
where
  "unregisterService client lStrName stub w =
     (let (isOk, w') = (case cb_onUnregisterService stub of
                          Some onUnregister \<Rightarrow> onUnregister lStrName w
                        | None \<Rightarrow> (False, w));
          stub' = (if isOk
                   then stub\<lparr>m_ServiceToBusName := umap_erase lStrName (m_ServiceToBusName stub)\<rparr>
                   else stub)
      in (if isOk then Unregister_OK else Unregister_NOT_FOUND, stub', w'))"

definition reportServiceState ::
  "'client option \<Rightarrow> string \<Rightarrow> wire_state \<Rightarrow> wire_state \<Rightarrow>
   ('w, 'conn, 'tok) CRecoverySchedulerStubImpl \<Rightarrow> 'w \<Rightarrow>
   QueryResult \<times> ('w, 'conn, 'tok) CRecoverySchedulerStubImpl \<times> 'w"
where
  "reportServiceState client lStrName wireCurrent wireLast stub w =
     (let lCurrent = RecoveryState_of_wire wireCurrent;
          lLast = RecoveryState_of_wire wireLast;
          (isOk, w') = (case cb_onReportServiceState stub of
                          Some onReport \<Rightarrow> onReport lStrName lCurrent lLast w
                        | None \<Rightarrow> (False, w))
      in (if isOk then Query_OK else Query_NOT_FOUND, stub, w'))"

text \<open>The broadcast that \<^verbatim>\<open>notifyStateChanged\<close> fires: the arguments of the event.\<close>

definition notifyStateChanged :: "string \<Rightarrow> RecoveryState \<Rightarrow> string \<times> wire_state" where
  "notifyStateChanged lStrName actionTaken = (lStrName, wire_of_RecoveryState actionTaken)"

text \<open>
  \<^verbatim>\<open>handleNameOwnerChanged\<close>: the loop stops at the first entry in iteration order whose bus
  name is the vanished one and erases it; the failure callback runs after the lock is released.
\<close>

definition handleNameOwnerChanged ::
  "string \<Rightarrow> string \<Rightarrow> string \<Rightarrow> ('w, 'conn, 'tok) CRecoverySchedulerStubImpl \<Rightarrow> 'w \<Rightarrow>
   (('w, 'conn, 'tok) CRecoverySchedulerStubImpl \<times> 'w) result"
where
  "handleNameOwnerChanged busName oldOwner newOwner stub w =
     (if newOwner = []
      then let (lStrAffectedService, stub') =
                 (case umap_find_if (\<lambda>_ peer. uniqueBusName peer = busName) (m_ServiceToBusName stub) of
                    None \<Rightarrow> ([], stub)
                  | Some (key, _) \<Rightarrow>
                      (key, stub\<lparr>m_ServiceToBusName := umap_erase key (m_ServiceToBusName stub)\<rparr>))
           in if lStrAffectedService \<noteq> []
              then (case cb_onServiceFailure stub' of
                      Some onFailure \<Rightarrow>
                        bind_result (onFailure lStrAffectedService w) (\<lambda>w'. Inr (stub', w'))
                    | None \<Rightarrow> Inr (stub', w))
              else Inr (stub', w)
      else Inr (stub, w))"

definition onSignalDBusMessage ::
  "('client, 'dbus, 'conn, 'msg, 'tok) capi \<Rightarrow> 'msg \<Rightarrow>
   ('w, 'conn, 'tok) CRecoverySchedulerStubImpl \<Rightarrow> 'w \<Rightarrow>
   (('w, 'conn, 'tok) CRecoverySchedulerStubImpl \<times> 'w) result"
where
  "onSignalDBusMessage env lDBusMsg stub w =
     (let (lStrName, lStrOldOwner, lStrNewOwner) = readNameOwnerChanged env lDBusMsg
      in handleNameOwnerChanged lStrName lStrOldOwner lStrNewOwner stub w)"

definition stub_run ::
  "('client, 'dbus, 'conn, 'msg, 'tok) capi \<Rightarrow> string \<Rightarrow> string \<Rightarrow>
   ('w, 'conn, 'tok) CRecoverySchedulerStubImpl \<Rightarrow> bool \<times> ('w, 'conn, 'tok) CRecoverySchedulerStubImpl"
where
  "stub_run env domain inst self =
     (let isOk = (if \<not> runtimeAvailable env then False else runtimeRegister env domain inst)
      in if isOk
         then (case stubAdapterConnection env of
                 Some (Some lDBusConn) \<Rightarrow>
                   (True, self\<lparr>m_SignalConn := Some lDBusConn,
                               m_SignalToken := Some (addSignalMemberHandler env lDBusConn
                                 ''/org/freedesktop/DBus'' ''org.freedesktop.DBus''
                                 ''NameOwnerChanged'' ''sss'' False)\<rparr>)
               | _ \<Rightarrow> (True, self))
         else (False, self))"

text \<open>The destructor: the handler removal it requests, if the connection still exists.\<close>

definition destroy_stub ::
  "('client, 'dbus, 'conn, 'msg, 'tok) capi \<Rightarrow> ('w, 'conn, 'tok) CRecoverySchedulerStubImpl \<Rightarrow>
   ('conn \<times> 'tok option) option"
where
  "destroy_stub env stub =
     (case lock_conn env stub of None \<Rightarrow> None | Some lDBus \<Rightarrow> Some (lDBus, m_SignalToken stub))"

section \<open>The peer-loss handler, case by case\<close>

abbreviation watcher_of :: "string \<Rightarrow> ('w, 'conn, 'tok) CRecoverySchedulerStubImpl \<Rightarrow> (string \<times> PeerInfo) option" where
  "watcher_of busName stub \<equiv>
     umap_find_if (\<lambda>_ peer. uniqueBusName peer = busName) (m_ServiceToBusName stub)"

lemma handle_owner_kept: "new \<noteq> [] \<Longrightarrow> handleNameOwnerChanged b old new stub w = Inr (stub, w)"
  by (simp add: handleNameOwnerChanged_def)

lemma handle_not_watched:
  "watcher_of b stub = None \<Longrightarrow> handleNameOwnerChanged b old new stub w = Inr (stub, w)"
  by (simp add: handleNameOwnerChanged_def)

lemma handle_watched:
  "watcher_of b stub = Some (key, peer) \<Longrightarrow> key \<noteq> [] \<Longrightarrow> cb_onServiceFailure stub = Some onFailure \<Longrightarrow>
   handleNameOwnerChanged b old [] stub w =
     bind_result (onFailure key w)
       (\<lambda>w'. Inr (stub\<lparr>m_ServiceToBusName := umap_erase key (m_ServiceToBusName stub)\<rparr>, w'))"
  by (simp add: handleNameOwnerChanged_def)

lemma watcher_of_Some:
  "umap_ok (m_ServiceToBusName stub) \<Longrightarrow> watcher_of b stub = Some (key, peer) \<Longrightarrow>
   lookup_peer stub key = Some peer \<and> uniqueBusName peer = b"
  by (rule um.first_if_SomeD)

lemma watcher_of_None: "watcher_of b stub = None \<Longrightarrow> lookup_peer stub key = Some peer \<Longrightarrow> uniqueBusName peer \<noteq> b"
  by (rule um.first_if_NoneD)

section \<open>The owner's contract\<close>

text \<open>
  The watch table is in order when every watched service has a non-empty name, is online in the
  owner's books, and has a non-empty bus name.
\<close>

definition watch_ok :: "(string \<Rightarrow> bool) \<Rightarrow> (string, PeerInfo) umap \<Rightarrow> bool" where
  "watch_ok online m \<longleftrightarrow>
     umap_ok m \<and> umap_all (\<lambda>lStrName peer. lStrName \<noteq> [] \<and> online lStrName \<and> uniqueBusName peer \<noteq> []) m"

definition wired ::
  "'w CallbackRegister \<Rightarrow> 'w CallbackUnregister \<Rightarrow> 'w CallbackFailure \<Rightarrow> 'w CallbackReport \<Rightarrow>
   ('w, 'conn, 'tok) CRecoverySchedulerStubImpl \<Rightarrow> bool"
where
  "wired onRegister onUnregister onFailure onReport stub \<longleftrightarrow>
     cb_onRegisterService stub = Some onRegister \<and> cb_onUnregisterService stub = Some onUnregister \<and>
     cb_onServiceFailure stub = Some onFailure \<and> cb_onReportServiceState stub = Some onReport"

lemma watch_ok_umap_ok: "watch_ok online m \<Longrightarrow> umap_ok m"
  by (simp add: watch_ok_def)

lemma watch_okD:
  "watch_ok online m \<Longrightarrow> umap_find m n = Some peer \<Longrightarrow>
   n \<noteq> [] \<and> online n \<and> uniqueBusName peer \<noteq> []"
  by (auto simp: watch_ok_def dest: um.everyD)

lemma watch_okI:
  "umap_ok m \<Longrightarrow>
   (\<And>n peer. umap_find m n = Some peer \<Longrightarrow> n \<noteq> [] \<and> online n \<and> uniqueBusName peer \<noteq> []) \<Longrightarrow>
   watch_ok online m"
  by (simp add: watch_ok_def um.every_iff)

lemma watch_ok_mono:
  "watch_ok online m \<Longrightarrow> (\<And>n. umap_find m n \<noteq> None \<Longrightarrow> online n \<Longrightarrow> online' n) \<Longrightarrow> watch_ok online' m"
  by (rule watch_okI) (auto dest: watch_ok_umap_ok watch_okD)

lemma watch_ok_erase:
  "watch_ok online m \<Longrightarrow> (\<And>k. k \<noteq> n \<Longrightarrow> online' k = online k) \<Longrightarrow> watch_ok online' (umap_erase n m)"
  by (auto simp: um.lookup_erase srs_inv intro!: watch_okI dest: watch_okD watch_ok_umap_ok split: if_splits)

lemma watch_ok_assign:
  "watch_ok online m \<Longrightarrow> n \<noteq> [] \<Longrightarrow> online' n \<Longrightarrow> uniqueBusName peer \<noteq> [] \<Longrightarrow>
   (\<And>k. k \<noteq> n \<Longrightarrow> online' k = online k) \<Longrightarrow> watch_ok online' (umap_assign n peer m)"
  by (auto simp: um.lookup_assign srs_inv intro!: watch_okI dest: watch_okD watch_ok_umap_ok split: if_splits)

text \<open>
  What the stub relies on: the four callbacks keep the owner's invariant, a successful
  registration puts the service online, a refused call changes nothing, and every callback
  leaves the liveness of other services alone. \<open>admissible\<close> is the owner's precondition on a
  policy.
\<close>

locale recovery_registry =
  fixes reg :: "'w CallbackRegister"
    and unreg :: "'w CallbackUnregister"
    and fail :: "'w CallbackFailure"
    and rep :: "'w CallbackReport"
    and inv :: "'w \<Rightarrow> bool"
    and online :: "'w \<Rightarrow> string \<Rightarrow> bool"
    and admissible :: "RecoveryState list \<Rightarrow> bool"
  assumes inv_reg: "inv w \<Longrightarrow> admissible acts \<Longrightarrow> inv (snd (reg n acts i p w))"
    and inv_unreg: "inv w \<Longrightarrow> inv (snd (unreg n w))"
    and inv_fail: "inv w \<Longrightarrow> fail n w = Inr w' \<Longrightarrow> inv w'"
    and inv_rep: "inv w \<Longrightarrow> inv (snd (rep n c l w))"
    and reg_accepted: "inv w \<Longrightarrow> fst (reg n acts i p w) \<Longrightarrow> n \<noteq> [] \<and> online (snd (reg n acts i p w)) n"
    and reg_refused: "inv w \<Longrightarrow> \<not> fst (reg n acts i p w) \<Longrightarrow> snd (reg n acts i p w) = w"
    and reg_frame: "inv w \<Longrightarrow> k \<noteq> n \<Longrightarrow> online (snd (reg n acts i p w)) k = online w k"
    and unreg_refused: "inv w \<Longrightarrow> \<not> fst (unreg n w) \<Longrightarrow> snd (unreg n w) = w"
    and unreg_frame: "inv w \<Longrightarrow> k \<noteq> n \<Longrightarrow> online (snd (unreg n w)) k = online w k"
    and rep_online: "inv w \<Longrightarrow> online (snd (rep n c l w)) = online w"
    and fail_frame: "inv w \<Longrightarrow> fail n w = Inr w' \<Longrightarrow> k \<noteq> n \<Longrightarrow> online w' k = online w k"
begin

abbreviation linked :: "('w, 'conn, 'tok) CRecoverySchedulerStubImpl \<Rightarrow> 'w \<Rightarrow> bool" where
  "linked stub w \<equiv> wired reg unreg fail rep stub \<and> inv w \<and> watch_ok (online w) (m_ServiceToBusName stub)"

lemma registerService_linked:
  assumes "linked stub w" and "admissible (map RecoveryState_of_wire acts)"
    and res: "registerService env client n acts i stub w = (r, stub', w')"
  shows "linked stub' w'"
proof -
  let ?acts = "map RecoveryState_of_wire acts"
  let ?bus = "extractDbusUniqueName env client"
  let ?pid = "queryUnixPidForBusName env stub ?bus"
  let ?r = "reg n ?acts i ?pid w"
  have w': "w' = snd ?r" and stub': "stub' = (if fst ?r \<and> ?bus \<noteq> []
      then stub\<lparr>m_ServiceToBusName := umap_assign n \<lparr>uniqueBusName = ?bus, peer_pid = ?pid\<rparr>
          (m_ServiceToBusName stub)\<rparr> else stub)"
    using res assms(1) by (auto simp: registerService_def wired_def Let_def split_beta)
  have inv: "inv w'" using assms(1,2) by (simp add: w' inv_reg)
  have "watch_ok (online w') (m_ServiceToBusName stub')"
  proof (cases "fst ?r")
    case True
    with assms(1) have on: "n \<noteq> []" "online w' n"
      using reg_accepted [of w n ?acts i ?pid] by (simp_all add: w')
    have frame: "\<And>k. k \<noteq> n \<Longrightarrow> online w' k = online w k" using assms(1) by (simp add: w' reg_frame)
    show ?thesis
    proof (cases "?bus = []")
      case True
      have "online w' k" if "online w k" for k using that on frame by (cases "k = n") auto
      with assms(1) True show ?thesis by (auto simp: stub' elim!: watch_ok_mono)
    next
      case False
      with assms(1) on frame show ?thesis by (auto simp: stub' True intro!: watch_ok_assign)
    qed
  next
    case False
    with assms(1) show ?thesis by (simp add: w' stub' reg_refused)
  qed
  with inv assms(1) stub' show ?thesis by (simp add: wired_def)
qed

lemma unregisterService_linked:
  assumes "linked stub w" and res: "unregisterService client n stub w = (r, stub', w')"
  shows "linked stub' w'"
proof (cases "fst (unreg n w)")
  case True
  then have "w' = snd (unreg n w)"
    "stub' = stub\<lparr>m_ServiceToBusName := umap_erase n (m_ServiceToBusName stub)\<rparr>"
    using res assms(1) by (auto simp: unregisterService_def wired_def Let_def split_beta)
  with assms(1) show ?thesis
    by (auto simp: inv_unreg wired_def unreg_frame intro!: watch_ok_erase)
next
  case False
  then have "w' = w" "stub' = stub"
    using res assms(1) unreg_refused [of w n]
    by (auto simp: unregisterService_def wired_def Let_def split_beta)
  with assms(1) show ?thesis by simp
qed

lemma reportServiceState_linked:
  assumes "linked stub w" and res: "reportServiceState client n c l stub w = (r, stub', w')"
  shows "linked stub' w'"
  using assms by (auto simp: reportServiceState_def wired_def Let_def split_beta inv_rep rep_online)

lemma watcher_named:
  "linked stub w \<Longrightarrow> watcher_of b stub = Some (key, peer) \<Longrightarrow> key \<noteq> []"
  by (blast dest: watcher_of_Some watch_okD watch_ok_umap_ok)

lemma handleNameOwnerChanged_linked:
  assumes "linked stub w"
    and res: "handleNameOwnerChanged b old new stub w = Inr (stub', w')"
  shows "linked stub' w'"
proof (cases "new = [] \<and> watcher_of b stub \<noteq> None")
  case False
  then have "handleNameOwnerChanged b old new stub w = Inr (stub, w)"
    by (cases "watcher_of b stub") (auto simp: handle_owner_kept handle_not_watched)
  with res assms(1) show ?thesis by simp
next
  case True
  then obtain key peer where found: "new = []" "watcher_of b stub = Some (key, peer)" by auto
  have "cb_onServiceFailure stub = Some fail" using assms(1) by (simp add: wired_def)
  with res found have "fail key w = Inr w'"
    "stub' = stub\<lparr>m_ServiceToBusName := umap_erase key (m_ServiceToBusName stub)\<rparr>"
    using handle_watched [OF found(2) watcher_named [OF assms(1) found(2)]]
    by (auto simp: bind_result_Inr_iff)
  with assms(1) show ?thesis
    by (auto simp: wired_def intro: inv_fail intro!: watch_ok_erase dest: fail_frame)
qed

lemma onSignalDBusMessage_linked:
  "linked stub w \<Longrightarrow> onSignalDBusMessage env msg stub w = Inr (stub', w') \<Longrightarrow> linked stub' w'"
  unfolding onSignalDBusMessage_def Let_def split_beta by (rule handleNameOwnerChanged_linked)

end

text \<open>An owner whose failure handler is always defined on the states its invariant allows.\<close>

locale total_registry = recovery_registry +
  assumes fail_defined: "inv w \<Longrightarrow> \<exists>w'. fail n w = Inr w'"
begin

lemma handleNameOwnerChanged_defined:
  assumes "linked stub w"
  shows "\<exists>stub' w'. handleNameOwnerChanged b old new stub w = Inr (stub', w')"
proof -
  consider "new \<noteq> []" | "watcher_of b stub = None"
    | key peer where "new = []" "watcher_of b stub = Some (key, peer)"
    by (cases "watcher_of b stub") auto
  then show ?thesis
  proof cases
    case 3
    have "cb_onServiceFailure stub = Some fail" using assms by (simp add: wired_def)
    moreover obtain w' where "fail key w = Inr w'" using assms fail_defined by blast
    ultimately show ?thesis
      using 3(1) handle_watched [OF 3(2) watcher_named [OF assms 3(2)]] by simp
  qed (simp_all add: handle_owner_kept handle_not_watched)
qed

end

end
