(* ===== verification/Daemon.thy ===== *)
theory Daemon
  imports Scheduler_Spec Stub
begin

text \<open>
  The daemon as a whole: the scheduler and its stub, wired by \<^verbatim>\<open>CRecoveryScheduler::init\<close> and
  registered by \<^verbatim>\<open>run\<close>, driven by the calls and signals that arrive on the bus. The contract
  the stub expects of its owner is interpreted on the scheduler's operations, and gives the
  invariant that links the stub's watch table to the registry in every reachable state.
\<close>

section \<open>Wiring\<close>

definition service_online :: "CRecoveryScheduler \<Rightarrow> string \<Rightarrow> bool" where
  "service_online st lStrName \<longleftrightarrow>
     (case lookup_service st lStrName of None \<Rightarrow> False | Some info \<Rightarrow> isOnline info)"

definition scheduler_init ::
  "(CRecoveryScheduler, 'conn, 'tok) CRecoverySchedulerStubImpl \<Rightarrow>
   (CRecoveryScheduler, 'conn, 'tok) CRecoverySchedulerStubImpl"
where
  "scheduler_init stub =
     setCallbacks (Some onRegisterService) (Some onUnregisterService) (Some onServiceFailure)
       (Some onReportServiceState) stub"

definition scheduler_run ::
  "('client, 'dbus, 'conn, 'msg, 'tok) capi \<Rightarrow>
   (CRecoveryScheduler, 'conn, 'tok) CRecoverySchedulerStubImpl \<Rightarrow>
   bool \<times> (CRecoveryScheduler, 'conn, 'tok) CRecoverySchedulerStubImpl"
where
  "scheduler_run env stub = stub_run env ''local'' ''com.bmw.recovery.RecoveryScheduler'' stub"

section \<open>The daemon's state and steps\<close>

record ('conn, 'tok) daemon =
  d_sched :: CRecoveryScheduler
  d_stub :: "(CRecoveryScheduler, 'conn, 'tok) CRecoverySchedulerStubImpl"

text \<open>\<^verbatim>\<open>getInstance\<close> constructs the empty scheduler with a fresh stub; \<^verbatim>\<open>init\<close> and \<^verbatim>\<open>run\<close> follow.\<close>

definition new_instance :: "('conn, 'tok) daemon" where
  "new_instance = \<lparr>d_sched = init_scheduler, d_stub = new_stub\<rparr>"

definition daemon_boot :: "('client, 'dbus, 'conn, 'msg, 'tok) capi \<Rightarrow> bool \<times> ('conn, 'tok) daemon" where
  "daemon_boot env =
     (let d = new_instance;
          (isOk, stub) = scheduler_run env (scheduler_init (d_stub d))
      in (isOk, d\<lparr>d_stub := stub\<rparr>))"

datatype ('client, 'msg) event =
    CallRegister "'client option" string "wire_state list" i32
  | CallUnregister "'client option" string
  | CallReport "'client option" string wire_state wire_state
  | BusSignal 'msg

datatype reply =
    RegisterReply RegisterResult
  | UnregisterReply UnregisterResult
  | QueryReply QueryResult
  | NoReply

fun daemon_step ::
  "('client, 'dbus, 'conn, 'msg, 'tok) capi \<Rightarrow> ('client, 'msg) event \<Rightarrow> ('conn, 'tok) daemon \<Rightarrow>
   (reply \<times> ('conn, 'tok) daemon) result"
where
  "daemon_step env (CallRegister client n acts i) d =
     (let (r, stub, w) = registerService env client n acts i (d_stub d) (d_sched d)
      in Inr (RegisterReply r, \<lparr>d_sched = w, d_stub = stub\<rparr>))"
| "daemon_step env (CallUnregister client n) d =
     (let (r, stub, w) = unregisterService client n (d_stub d) (d_sched d)
      in Inr (UnregisterReply r, \<lparr>d_sched = w, d_stub = stub\<rparr>))"
| "daemon_step env (CallReport client n c l) d =
     (let (r, stub, w) = reportServiceState client n c l (d_stub d) (d_sched d)
      in Inr (QueryReply r, \<lparr>d_sched = w, d_stub = stub\<rparr>))"
| "daemon_step env (BusSignal msg) d =
     bind_result (onSignalDBusMessage env msg (d_stub d) (d_sched d))
       (\<lambda>(stub, w). Inr (NoReply, \<lparr>d_sched = w, d_stub = stub\<rparr>))"

fun bounded_event :: "('client, 'msg) event \<Rightarrow> bool" where
  "bounded_event (CallRegister client n acts i) = (length acts \<le> 128)"
| "bounded_event _ = True"

section \<open>The scheduler keeps the stub's contract\<close>

lemma service_online_register:
  "service_online (snd (onRegisterService n acts i p st)) k =
     (if k = n then service_online st n \<or> lookup_service st n \<noteq> None \<or> n \<in> catalogue_names
      else service_online st k)"
  by (auto simp: service_online_def lookup_register new_service_info_eq split: option.splits)

lemma service_online_unregister:
  "sched_ok st \<Longrightarrow> service_online (snd (onUnregisterService n st)) k = (k \<noteq> n \<and> service_online st k)"
  by (simp add: service_online_def lookup_unregister)

lemma service_online_report:
  "service_online (snd (onReportServiceState n c l st)) = service_online st"
  by (auto simp: service_online_def lookup_report fun_eq_iff split: option.split)

lemma service_online_failure:
  "sched_ok st \<Longrightarrow> onServiceFailure n st = Inr st' \<Longrightarrow> k \<noteq> n \<Longrightarrow> service_online st' k = service_online st k"
  by (simp add: service_online_def lookup_failure split: option.split)

lemma unregister_refused: "sched_ok st \<Longrightarrow> \<not> fst (onUnregisterService n st) \<Longrightarrow> snd (onUnregisterService n st) = st"
  by (simp add: unregister_eq split: option.splits)

lemma register_refused: "\<not> fst (onRegisterService n acts i p st) \<Longrightarrow> snd (onRegisterService n acts i p st) = st"
  by (simp add: onRegisterService_def split: option.splits if_splits)

lemma registered_name: "sched_ok st \<Longrightarrow> lookup_service st n = Some info \<Longrightarrow> n \<in> catalogue_names"
  using sched_ok_info [of st n] by (auto simp: info_ok_def)

lemma register_accepted_name:
  "sched_ok st \<Longrightarrow> fst (onRegisterService n acts i p st) \<Longrightarrow> n \<in> catalogue_names"
  using registered_name [of st n] by (auto simp: register_result)

text \<open>For any policies, and (with the failure handler always defined) for safe ones.\<close>

interpretation any_policy: recovery_registry onRegisterService onUnregisterService onServiceFailure
    onReportServiceState sched_ok service_online "\<lambda>_. True"
  by unfold_locales
    (auto simp: srs_inv service_online_register service_online_unregister service_online_report
      service_online_failure register_refused unregister_refused register_result
      dest: registered_name catalogue_names_nonempty)

interpretation safe_policy: total_registry onRegisterService onUnregisterService onServiceFailure
    onReportServiceState sched_safe service_online policy_safe
proof
  fix st n
  assume "sched_safe st"
  then show "\<exists>st'. onServiceFailure n st = Inr st'" by (blast elim: failure_returns)
qed (auto simp: srs_inv service_online_register service_online_unregister service_online_report
      service_online_failure register_refused unregister_refused register_result failure_Inr
      dest: registered_name catalogue_names_nonempty dest!: sched_safe_ok)

text \<open>An invariant of the scheduler's books that its callbacks keep is kept by every event.\<close>

locale scheduler_invariant =
  recovery_registry onRegisterService onUnregisterService onServiceFailure onReportServiceState inv
    service_online admissible
  for inv and admissible
begin

lemma daemon_step_linked:
  assumes linked: "linked (d_stub d) (d_sched d)" and step: "daemon_step env e d = Inr (r, d')"
    and adm: "\<And>client n acts i. e = CallRegister client n acts i \<Longrightarrow> admissible (map RecoveryState_of_wire acts)"
  shows "linked (d_stub d') (d_sched d')"
proof (cases e)
  case (CallRegister client n acts i)
  with step registerService_linked [OF linked adm [OF CallRegister], where env = env and client = client and n = n and i = i]
  show ?thesis
    by (cases "registerService env client n acts i (d_stub d) (d_sched d)") auto
next
  case (CallUnregister client n)
  with step unregisterService_linked [OF linked, of client n] show ?thesis
    by (cases "unregisterService client n (d_stub d) (d_sched d)") auto
next
  case (CallReport client n c l)
  with step reportServiceState_linked [OF linked, of client n c l] show ?thesis
    by (cases "reportServiceState client n c l (d_stub d) (d_sched d)") auto
next
  case (BusSignal msg)
  with step obtain stub w where "onSignalDBusMessage env msg (d_stub d) (d_sched d) = Inr (stub, w)"
      "d' = \<lparr>d_sched = w, d_stub = stub\<rparr>"
    by (auto simp: bind_result_Inr_iff)
  with onSignalDBusMessage_linked [OF linked] show ?thesis by simp
qed

end

interpretation any_policy_steps: scheduler_invariant sched_ok "\<lambda>_. True"
  by unfold_locales

interpretation safe_policy_steps: scheduler_invariant sched_safe policy_safe
  by unfold_locales

section \<open>Reachable states\<close>

abbreviation scheduler_wired :: "(CRecoveryScheduler, 'conn, 'tok) CRecoverySchedulerStubImpl \<Rightarrow> bool" where
  "scheduler_wired stub \<equiv>
     wired onRegisterService onUnregisterService onServiceFailure onReportServiceState stub"

text \<open>The link between the two components; \<open>daemon_safe\<close> also has every cursor in its ring.\<close>

definition daemon_ok :: "('conn, 'tok) daemon \<Rightarrow> bool" where
  "daemon_ok d \<longleftrightarrow>
     scheduler_wired (d_stub d) \<and> sched_ok (d_sched d) \<and>
     watch_ok (service_online (d_sched d)) (m_ServiceToBusName (d_stub d))"

definition daemon_safe :: "('conn, 'tok) daemon \<Rightarrow> bool" where
  "daemon_safe d \<longleftrightarrow>
     scheduler_wired (d_stub d) \<and> sched_safe (d_sched d) \<and>
     watch_ok (service_online (d_sched d)) (m_ServiceToBusName (d_stub d))"

definition booted :: "('client, 'dbus, 'conn, 'msg, 'tok) capi \<Rightarrow> ('conn, 'tok) daemon \<Rightarrow> bool" where
  "booted env d \<longleftrightarrow> daemon_boot env = (True, d)"

inductive daemon_trans ::
  "('client, 'dbus, 'conn, 'msg, 'tok) capi \<Rightarrow> ('conn, 'tok) daemon \<Rightarrow> ('client, 'msg) event \<Rightarrow>
   ('conn, 'tok) daemon \<Rightarrow> bool" for env
where
  handle: "daemon_step env e d = Inr (r, d') \<Longrightarrow> daemon_trans env d e d'"

inductive_cases daemon_transE [elim!]: "daemon_trans env d e d'"

inductive daemon_trans_bounded ::
  "('client, 'dbus, 'conn, 'msg, 'tok) capi \<Rightarrow> ('conn, 'tok) daemon \<Rightarrow> ('client, 'msg) event \<Rightarrow>
   ('conn, 'tok) daemon \<Rightarrow> bool" for env
where
  handle_bounded: "bounded_event e \<Longrightarrow> daemon_step env e d = Inr (r, d') \<Longrightarrow> daemon_trans_bounded env d e d'"

inductive_cases daemon_trans_boundedE [elim!]: "daemon_trans_bounded env d e d'"

lemma stub_run_keeps:
  "stub_run env domain inst stub = (ok, stub') \<Longrightarrow>
   m_ServiceToBusName stub' = m_ServiceToBusName stub \<and>
   cb_onRegisterService stub' = cb_onRegisterService stub \<and>
   cb_onUnregisterService stub' = cb_onUnregisterService stub \<and>
   cb_onServiceFailure stub' = cb_onServiceFailure stub \<and>
   cb_onReportServiceState stub' = cb_onReportServiceState stub"
  by (auto simp: stub_run_def Let_def split: if_splits option.splits)

lemma scheduler_init_linked:
  "scheduler_wired (scheduler_init new_stub) \<and>
   watch_ok online (m_ServiceToBusName (scheduler_init new_stub))"
  by (simp add: scheduler_init_def setCallbacks_def wired_def new_stub_def watch_ok_def)

lemma daemon_boot_safe: "daemon_safe (snd (daemon_boot env))"
proof -
  obtain ok stub where run: "scheduler_run env (scheduler_init new_stub) = (ok, stub)" by fastforce
  then have "d_stub (snd (daemon_boot env)) = stub" "d_sched (snd (daemon_boot env)) = init_scheduler"
    by (simp_all add: daemon_boot_def new_instance_def)
  with stub_run_keeps [OF run [unfolded scheduler_run_def]] scheduler_init_linked
  show ?thesis by (auto simp: daemon_safe_def wired_def init_scheduler_safe)
qed

lemma daemon_safe_ok: "daemon_safe d \<Longrightarrow> daemon_ok d"
  by (simp add: daemon_safe_def daemon_ok_def sched_safe_ok)

lemma daemon_step_ok: "daemon_ok d \<Longrightarrow> daemon_step env e d = Inr (r, d') \<Longrightarrow> daemon_ok d'"
  unfolding daemon_ok_def by (erule any_policy_steps.daemon_step_linked) simp_all

lemma policy_safe_bounded: "length acts \<le> 128 \<Longrightarrow> policy_safe (map RecoveryState_of_wire acts)"
  by (rule policy_safe_small) simp

lemma daemon_step_defined:
  assumes "daemon_safe d"
  shows "\<exists>r d'. daemon_step env e d = Inr (r, d')"
proof (cases e)
  case (BusSignal msg)
  obtain b old new where "readNameOwnerChanged env msg = (b, old, new)" by (rule prod_cases3)
  moreover obtain stub w where "handleNameOwnerChanged b old new (d_stub d) (d_sched d) = Inr (stub, w)"
    using safe_policy.handleNameOwnerChanged_defined [OF assms [unfolded daemon_safe_def]] by blast
  ultimately show ?thesis using BusSignal by (simp add: onSignalDBusMessage_def)
qed (auto simp: split_beta)

lemma daemon_step_safe:
  assumes "daemon_safe d" and "bounded_event e"
  shows "\<exists>r d'. daemon_step env e d = Inr (r, d') \<and> daemon_safe d'"
proof -
  obtain r d' where step: "daemon_step env e d = Inr (r, d')" using daemon_step_defined [OF assms(1)] by blast
  have "daemon_safe d'"
    unfolding daemon_safe_def using assms(1) [unfolded daemon_safe_def] step
    by (rule safe_policy_steps.daemon_step_linked) (use assms(2) in \<open>simp add: policy_safe_bounded\<close>)
  with step show ?thesis by blast
qed

interpretation daemon_any: transition_system "booted env" "daemon_trans env" daemon_ok for env
proof
  show "daemon_ok d" if "booted env d" for d
    using that daemon_safe_ok [OF daemon_boot_safe [of env]] by (simp add: booted_def)
qed (auto dest: daemon_step_ok)

interpretation daemon_bounded: transition_system "booted env" "daemon_trans_bounded env" daemon_safe for env
proof
  show "daemon_safe d" if "booted env d" for d
    using that daemon_boot_safe [of env] by (simp add: booted_def)
  show "daemon_safe d'" if "daemon_safe d" "daemon_trans_bounded env d e d'" for d e d'
    using that daemon_step_safe [OF that(1), of e env] by auto
qed

end
