(* ===== verification/Daemon_Spec.thy ===== *)
theory Daemon_Spec
  imports Daemon
begin

text \<open>
  An abstract specification of the daemon and the simulation that ties \<open>Daemon\<close> to it. The
  specification has two finite tables: the services of \<open>Scheduler_Spec\<close> and, per watched
  service, the bus name whose loss counts as its crash. Calls and signals are transitions; a lost
  bus name that backs several services may fail any one of them.
\<close>

section \<open>Specification\<close>

record daemon_spec =
  services :: registry_spec
  watched :: "string \<rightharpoonup> string"

definition empty_spec :: daemon_spec where
  "empty_spec = \<lparr>services = Map.empty, watched = Map.empty\<rparr>"

text \<open>\<open>lost env e b\<close>: the event announces that the name \<open>b\<close> has no owner any more.\<close>

fun lost :: "('client, 'dbus, 'conn, 'msg, 'tok) capi \<Rightarrow> ('client, 'msg) event \<Rightarrow> string option" where
  "lost env (BusSignal msg) =
     (let (b, old, new) = readNameOwnerChanged env msg in if new = [] then Some b else None)"
| "lost env _ = None"

inductive spec_trans ::
  "('client, 'dbus, 'conn, 'msg, 'tok) capi \<Rightarrow> daemon_spec \<Rightarrow> ('client, 'msg) event \<Rightarrow> reply \<Rightarrow> daemon_spec \<Rightarrow> bool"
  for env
where
  spec_accept:
    "spec_op (Register n (map RecoveryState_of_wire acts) i p) (services s) = (True, reg) \<Longrightarrow>
     b = extractDbusUniqueName env client \<Longrightarrow>
     spec_trans env s (CallRegister client n acts i) (RegisterReply Register_OK)
       \<lparr>services = reg, watched = (if b = [] then watched s else (watched s)(n \<mapsto> b))\<rparr>"
| spec_refuse:
    "services s n = None \<Longrightarrow> n \<notin> catalogue_names \<Longrightarrow>
     spec_trans env s (CallRegister client n acts i) (RegisterReply INVALID_NAME) s"
| spec_remove:
    "services s n \<noteq> None \<Longrightarrow>
     spec_trans env s (CallUnregister client n) (UnregisterReply Unregister_OK)
       \<lparr>services = (services s)(n := None), watched = (watched s)(n := None)\<rparr>"
| spec_nothing_to_remove:
    "services s n = None \<Longrightarrow>
     spec_trans env s (CallUnregister client n) (UnregisterReply Unregister_NOT_FOUND) s"
| spec_report:
    "spec_op (Report n (RecoveryState_of_wire c) (RecoveryState_of_wire l)) (services s) = (ok, reg) \<Longrightarrow>
     spec_trans env s (CallReport client n c l) (QueryReply (if ok then Query_OK else Query_NOT_FOUND))
       (s\<lparr>services := reg\<rparr>)"
| spec_loss:
    "lost env (BusSignal msg) = Some b \<Longrightarrow> watched s n = Some b \<Longrightarrow>
     spec_trans env s (BusSignal msg) NoReply
       \<lparr>services = (services s)(n := map_option crash_spec (services s n)),
        watched = (watched s)(n := None)\<rparr>"
| spec_ignore:
    "(\<And>b. lost env (BusSignal msg) = Some b \<Longrightarrow> b \<notin> ran (watched s)) \<Longrightarrow>
     spec_trans env s (BusSignal msg) NoReply s"

inductive spec_traces ::
  "('client, 'dbus, 'conn, 'msg, 'tok) capi \<Rightarrow> daemon_spec \<Rightarrow> ('client, 'msg) event list \<Rightarrow> reply list \<Rightarrow>
   daemon_spec \<Rightarrow> bool"
  for env
where
  spec_done: "spec_traces env s [] [] s"
| spec_more: "spec_trans env s e r s' \<Longrightarrow> spec_traces env s' es rs s'' \<Longrightarrow> spec_traces env s (e # es) (r # rs) s''"

section \<open>The simulation\<close>

definition peer_names :: "('w, 'conn, 'tok) CRecoverySchedulerStubImpl \<Rightarrow> string \<rightharpoonup> string" where
  "peer_names stub = (\<lambda>n. map_option uniqueBusName (lookup_peer stub n))"

definition daemon_refines :: "('conn, 'tok) daemon \<Rightarrow> daemon_spec \<Rightarrow> bool" where
  "daemon_refines d s \<longleftrightarrow>
     daemon_safe d \<and> sched_refines (d_sched d) (services s) \<and> peer_names (d_stub d) = watched s"

lemma daemon_refinesD:
  "daemon_refines d s \<Longrightarrow> daemon_safe d"
  "daemon_refines d s \<Longrightarrow> sched_refines (d_sched d) (services s)"
  "daemon_refines d s \<Longrightarrow> peer_names (d_stub d) = watched s"
  "daemon_refines d s \<Longrightarrow> scheduler_wired (d_stub d)"
  by (simp_all add: daemon_refines_def daemon_safe_def)

lemma daemon_boot_refines: "daemon_refines (snd (daemon_boot env)) empty_spec"
proof -
  obtain ok stub where run: "scheduler_run env (scheduler_init new_stub) = (ok, stub)" by fastforce
  with stub_run_keeps [OF run [unfolded scheduler_run_def]] show ?thesis
    using daemon_boot_safe [of env] sched_refines_init
    by (simp add: daemon_refines_def empty_spec_def daemon_boot_def new_instance_def peer_names_def
        scheduler_init_def setCallbacks_def new_stub_def)
qed

lemma peer_names_assign:
  "peer_names (stub\<lparr>m_ServiceToBusName := umap_assign n peer (m_ServiceToBusName stub)\<rparr>) =
     (peer_names stub)(n \<mapsto> uniqueBusName peer)"
  by (auto simp: peer_names_def um.lookup_assign)

lemma peer_names_erase:
  "peer_names (stub\<lparr>m_ServiceToBusName := umap_erase n (m_ServiceToBusName stub)\<rparr>) = (peer_names stub)(n := None)"
  by (auto simp: peer_names_def um.lookup_erase)

lemma spec_register_result:
  "fst (spec_op (Register n acts i p) reg) \<longleftrightarrow> reg n \<noteq> None \<or> n \<in> catalogue_names"
  "\<not> fst (spec_op (Register n acts i p) reg) \<Longrightarrow> spec_op (Register n acts i p) reg = (False, reg)"
  by (auto split: option.splits if_splits)

lemma sim_register:
  assumes rel: "daemon_refines d s" and len: "length acts \<le> 128"
  shows "\<exists>r d' s'. daemon_step env (CallRegister client n acts i) d = Inr (r, d')
    \<and> spec_trans env s (CallRegister client n acts i) r s' \<and> daemon_refines d' s'"
proof -
  let ?b = "extractDbusUniqueName env client"
  let ?p = "queryUnixPidForBusName env (d_stub d) ?b"
  let ?op = "Register n (map RecoveryState_of_wire acts) i ?p"
  let ?stub = "(d_stub d)\<lparr>m_ServiceToBusName :=
      umap_assign n \<lparr>uniqueBusName = ?b, peer_pid = ?p\<rparr> (m_ServiceToBusName (d_stub d))\<rparr>"
  obtain ok reg where spec: "spec_op ?op (services s) = (ok, reg)" by fastforce
  obtain st' where st': "onRegisterService n (map RecoveryState_of_wire acts) i ?p (d_sched d) = (ok, st')"
    and rel': "sched_refines st' reg"
    using sched.refines [OF daemon_refinesD(2) [OF rel], of ?op] spec len by auto
  let ?d' = "\<lparr>d_sched = st', d_stub = (if ok \<and> ?b \<noteq> [] then ?stub else d_stub d)\<rparr>"
  have step: "daemon_step env (CallRegister client n acts i) d =
      Inr (RegisterReply (if ok then Register_OK else INVALID_NAME), ?d')"
    using st' daemon_refinesD(4) [OF rel] by (simp add: registerService_def wired_def Let_def)
  moreover have "daemon_safe ?d'"
    using daemon_step_safe [OF daemon_refinesD(1) [OF rel], of "CallRegister client n acts i" env] step len
    by simp
  moreover have "\<exists>s'. spec_trans env s (CallRegister client n acts i) (RegisterReply (if ok then Register_OK else INVALID_NAME)) s'
      \<and> services s' = reg \<and> watched s' = (if ok \<and> ?b \<noteq> [] then (watched s)(n \<mapsto> ?b) else watched s)"
  proof (cases ok)
    case True
    with spec_accept [OF _ refl, of n acts i ?p s reg env client] spec show ?thesis by force
  next
    case False
    with spec spec_register_result [of n _ i ?p "services s"]
    have "services s n = None" "n \<notin> catalogue_names" "reg = services s" by (metis fst_conv snd_conv)+
    with False spec_refuse [of s n env client acts i] show ?thesis by auto
  qed
  ultimately show ?thesis
    using rel' daemon_refinesD(3) [OF rel]
    by (force simp: daemon_refines_def peer_names_assign simp del: daemon_step.simps)
qed

lemma sim_unregister:
  assumes rel: "daemon_refines d s"
  shows "\<exists>r d' s'. daemon_step env (CallUnregister client n) d = Inr (r, d')
    \<and> spec_trans env s (CallUnregister client n) r s' \<and> daemon_refines d' s'"
proof -
  note ref = daemon_refinesD [OF rel]
  obtain ok st' where un: "onUnregisterService n (d_sched d) = (ok, st')" by fastforce
  with refines_unregister [OF ref(2), of n] have ok: "ok \<longleftrightarrow> services s n \<noteq> None"
    and st': "sched_refines st' ((services s)(n := None))" by simp_all
  let ?stub = "(d_stub d)\<lparr>m_ServiceToBusName := umap_erase n (m_ServiceToBusName (d_stub d))\<rparr>"
  let ?d' = "\<lparr>d_sched = st', d_stub = (if ok then ?stub else d_stub d)\<rparr>"
  have step: "daemon_step env (CallUnregister client n) d =
      Inr (UnregisterReply (if ok then Unregister_OK else Unregister_NOT_FOUND), ?d')"
    using un ref(4) by (simp add: unregisterService_def wired_def Let_def)
  moreover have "daemon_safe ?d'"
    using daemon_step_safe [OF ref(1), of "CallUnregister client n" env] step by simp
  ultimately show ?thesis
  proof (cases ok)
    case True
    with ok step \<open>daemon_safe ?d'\<close> st' ref(3) spec_remove [of s n env client] show ?thesis
      by (force simp: daemon_refines_def peer_names_erase simp del: daemon_step.simps)
  next
    case False
    then have "(services s)(n := None) = services s" using ok by (simp add: fun_upd_idem)
    with False ok step \<open>daemon_safe ?d'\<close> st' ref(3) spec_nothing_to_remove [of s n env client] show ?thesis
      by (force simp: daemon_refines_def simp del: daemon_step.simps)
  qed
qed

lemma sim_report:
  assumes rel: "daemon_refines d s"
  shows "\<exists>r d' s'. daemon_step env (CallReport client n c l) d = Inr (r, d')
    \<and> spec_trans env s (CallReport client n c l) r s' \<and> daemon_refines d' s'"
proof -
  note ref = daemon_refinesD [OF rel]
  let ?c = "RecoveryState_of_wire c" and ?l = "RecoveryState_of_wire l"
  obtain ok reg where spec: "spec_op (Report n ?c ?l) (services s) = (ok, reg)" by fastforce
  obtain st' where st': "onReportServiceState n ?c ?l (d_sched d) = (ok, st')" and rel': "sched_refines st' reg"
    using sched.refines [OF ref(2), of "Report n ?c ?l"] spec by auto
  have step: "daemon_step env (CallReport client n c l) d =
      Inr (QueryReply (if ok then Query_OK else Query_NOT_FOUND), \<lparr>d_sched = st', d_stub = d_stub d\<rparr>)"
    using st' ref(4) by (simp add: reportServiceState_def wired_def Let_def)
  moreover have "daemon_safe \<lparr>d_sched = st', d_stub = d_stub d\<rparr>"
    using daemon_step_safe [OF ref(1), of "CallReport client n c l" env] step by simp
  ultimately show ?thesis
    using spec_report [OF spec, of env client] rel' ref(3)
    by (force simp: daemon_refines_def simp del: daemon_step.simps)
qed

lemma peer_names_ran:
  "umap_ok (m_ServiceToBusName stub) \<Longrightarrow> b \<in> ran (peer_names stub) \<longleftrightarrow> watcher_of b stub \<noteq> None"
  by (cases "watcher_of b stub")
    (auto simp: peer_names_def ran_def dest: watcher_of_Some watcher_of_None)

lemma sim_signal:
  assumes rel: "daemon_refines d s"
  shows "\<exists>r d' s'. daemon_step env (BusSignal msg) d = Inr (r, d')
    \<and> spec_trans env s (BusSignal msg) r s' \<and> daemon_refines d' s'"
proof -
  note ref = daemon_refinesD [OF rel]
  obtain b old new where rd: "readNameOwnerChanged env msg = (b, old, new)" by (rule prod_cases3)
  have w: "watch_ok (service_online (d_sched d)) (m_ServiceToBusName (d_stub d))"
    using ref(1) by (simp add: daemon_safe_def)
  show ?thesis
  proof (cases "new = [] \<and> watcher_of b (d_stub d) \<noteq> None")
    case True
    then obtain n peer where np: "watcher_of b (d_stub d) = Some (n, peer)" by auto
    have peer: "lookup_peer (d_stub d) n = Some peer" "uniqueBusName peer = b"
      using watcher_of_Some [OF watch_ok_umap_ok [OF w] np] by simp_all
    have n: "n \<noteq> []" using watch_okD [OF w peer(1)] by simp
    have watched: "watched s n = Some b"
      unfolding ref(3) [symmetric] by (simp add: peer_names_def peer)
    obtain st' where st': "onServiceFailure n (d_sched d) = Inr st'"
        "sched_refines st' ((services s)(n := map_option crash_spec (services s n)))"
      using refines_failure [OF ref(2), of n] by blast
    let ?d' = "\<lparr>d_sched = st',
        d_stub = (d_stub d)\<lparr>m_ServiceToBusName := umap_erase n (m_ServiceToBusName (d_stub d))\<rparr>\<rparr>"
    have step: "daemon_step env (BusSignal msg) d = Inr (NoReply, ?d')"
      using True st'(1) ref(4) handle_watched [OF np n] by (simp add: onSignalDBusMessage_def rd wired_def)
    moreover have "daemon_safe ?d'"
      using daemon_step_safe [OF ref(1), of "BusSignal msg" env] step by simp
    ultimately show ?thesis
      using spec_loss [of env msg b s n, OF _ watched] rd True st'(2) ref(3)
      by (intro exI [of _ NoReply] exI [of _ ?d'] exI conjI)
        (assumption | simp add: daemon_refines_def peer_names_erase del: daemon_step.simps)+
  next
    case False
    then have "handleNameOwnerChanged b old new (d_stub d) (d_sched d) = Inr (d_stub d, d_sched d)"
      using handle_owner_kept [of new b old "d_stub d"] handle_not_watched [of b "d_stub d" old new]
      by (cases "new = []"; cases "watcher_of b (d_stub d)") simp_all
    then have "daemon_step env (BusSignal msg) d = Inr (NoReply, d)" by (simp add: onSignalDBusMessage_def rd)
    moreover have "spec_trans env s (BusSignal msg) NoReply s"
      using False peer_names_ran [OF watch_ok_umap_ok [OF w]] ref(3)
      by (intro spec_ignore) (simp add: rd split: if_splits)
    ultimately show ?thesis using rel by blast
  qed
qed

lemma daemon_simulates:
  assumes "daemon_refines d s" and "bounded_event e"
  shows "\<exists>r d' s'. daemon_step env e d = Inr (r, d') \<and> spec_trans env s e r s' \<and> daemon_refines d' s'"
  using assms
  by (cases e; simp only: bounded_event.simps)
    (rule sim_register sim_unregister sim_report sim_signal; assumption)+

lemma daemon_simulates_run:
  assumes "daemon_refines d s" and "list_all bounded_event es"
  shows "\<exists>rs d' s'. run_ops (daemon_step env) es d = Inr (rs, d') \<and> spec_traces env s es rs s' \<and> daemon_refines d' s'"
  using assms
proof (induction es arbitrary: d s)
  case Nil
  then show ?case by (auto intro: spec_done)
next
  case (Cons e es)
  then obtain r d1 s1 where 1: "daemon_step env e d = Inr (r, d1)" "spec_trans env s e r s1" "daemon_refines d1 s1"
    using daemon_simulates [of d s e env] by auto
  with Cons obtain rs d' s' where "run_ops (daemon_step env) es d1 = Inr (rs, d')" "spec_traces env s1 es rs s'"
      "daemon_refines d' s'"
    by fastforce
  with 1 show ?case by (auto intro: spec_more)
qed

end
