(* ===== verification/Daemon_Props.thy ===== *)
theory Daemon_Props
  imports Daemon_Spec
begin

text \<open>
  The properties that span scheduler, stub and bus: what a registration over D-Bus achieves, how
  a lost peer becomes a crash of exactly the right service, which signals are ignored, what
  happens when one peer backs several services, and what holds in every reachable state.
\<close>

section \<open>Auxiliary facts\<close>

lemma reachable_bounded_safe: "reachable (booted env) (daemon_trans_bounded env) d \<Longrightarrow> daemon_safe d"
  by (rule daemon_bounded.reachable_inv)

lemma reachable_any_ok: "reachable (booted env) (daemon_trans env) d \<Longrightarrow> daemon_ok d"
  by (rule daemon_any.reachable_inv)

lemma reachable_bounded_any:
  "reachable (booted env) (daemon_trans_bounded env) d \<Longrightarrow> reachable (booted env) (daemon_trans env) d"
  by (induction rule: reachable.induct) (auto intro: reachable.intros daemon_trans.intros)

lemma step_register:
  assumes "scheduler_wired (d_stub d)"
  shows "daemon_step env (CallRegister client n acts i) d =
    (let b = extractDbusUniqueName env client;
         p = queryUnixPidForBusName env (d_stub d) b;
         r = onRegisterService n (map RecoveryState_of_wire acts) i p (d_sched d)
     in Inr (RegisterReply (if fst r then Register_OK else INVALID_NAME),
          \<lparr>d_sched = snd r,
           d_stub = (if fst r \<and> b \<noteq> []
             then (d_stub d)\<lparr>m_ServiceToBusName :=
                    umap_assign n \<lparr>uniqueBusName = b, peer_pid = p\<rparr> (m_ServiceToBusName (d_stub d))\<rparr>
             else d_stub d)\<rparr>))"
  using assms by (simp add: registerService_def wired_def Let_def split_beta)

lemma step_unregister:
  assumes "scheduler_wired (d_stub d)" and "sched_ok (d_sched d)"
  shows "daemon_step env (CallUnregister client n) d =
    (let known = lookup_service (d_sched d) n \<noteq> None
     in Inr (UnregisterReply (if known then Unregister_OK else Unregister_NOT_FOUND),
          \<lparr>d_sched = snd (onUnregisterService n (d_sched d)),
           d_stub = (if known
             then (d_stub d)\<lparr>m_ServiceToBusName := umap_erase n (m_ServiceToBusName (d_stub d))\<rparr>
             else d_stub d)\<rparr>))"
  using assms(1) by (auto simp: unregisterService_def wired_def unregister_eq [OF assms(2)] split: option.split)

lemma step_signal:
  "readNameOwnerChanged env msg = (b, old, new) \<Longrightarrow>
   daemon_step env (BusSignal msg) d =
     bind_result (handleNameOwnerChanged b old new (d_stub d) (d_sched d))
       (\<lambda>(stub, w). Inr (NoReply, \<lparr>d_sched = w, d_stub = stub\<rparr>))"
  by (simp add: onSignalDBusMessage_def)

lemma step_signal_ignored:
  assumes "readNameOwnerChanged env msg = (b, old, new)" and "new \<noteq> [] \<or> watcher_of b (d_stub d) = None"
  shows "daemon_step env (BusSignal msg) d = Inr (NoReply, d)"
proof -
  have "handleNameOwnerChanged b old new (d_stub d) (d_sched d) = Inr (d_stub d, d_sched d)"
    using assms(2) by (auto simp: handle_owner_kept handle_not_watched)
  with step_signal [OF assms(1)] show ?thesis by simp
qed

lemma watched_registered:
  assumes "daemon_ok d" and "lookup_peer (d_stub d) n = Some peer"
  shows "\<exists>info. lookup_service (d_sched d) n = Some info \<and> isOnline info \<and> serviceName info = n
    \<and> n \<in> catalogue_names \<and> uniqueBusName peer \<noteq> []"
proof -
  from assms(1) have ok: "sched_ok (d_sched d)"
    and w: "watch_ok (service_online (d_sched d)) (m_ServiceToBusName (d_stub d))"
    by (simp_all add: daemon_ok_def)
  from watch_okD [OF w assms(2)] obtain info
    where "lookup_service (d_sched d) n = Some info" "isOnline info" "uniqueBusName peer \<noteq> []"
    by (auto simp: service_online_def split: option.splits)
  with sched_ok_info [OF ok] show ?thesis by (auto simp: info_ok_def)
qed

lemma watcher_of_unwatched:
  "daemon_ok d \<Longrightarrow> (\<And>k p. lookup_peer (d_stub d) k = Some p \<Longrightarrow> uniqueBusName p \<noteq> b) \<Longrightarrow>
   watcher_of b (d_stub d) = None"
  by (cases "watcher_of b (d_stub d)") (auto simp: daemon_ok_def dest: watcher_of_Some watch_ok_umap_ok)

text \<open>Peer loss on a safe daemon: the erased entry's service, and only it, is failed.\<close>

lemma step_peer_loss:
  assumes "daemon_safe d" and "readNameOwnerChanged env msg = (b, old, [])"
    and "watcher_of b (d_stub d) = Some (n, peer)"
  obtains d' where "daemon_step env (BusSignal msg) d = Inr (NoReply, d')" and "daemon_safe d'"
    and "lookup_peer (d_stub d') = (lookup_peer (d_stub d))(n := None)"
    and "lookup_service (d_sched d') =
      (lookup_service (d_sched d))(n := map_option failed_info (lookup_service (d_sched d) n))"
proof -
  from assms(1) have w: "scheduler_wired (d_stub d)" and s: "sched_safe (d_sched d)"
    and o: "watch_ok (service_online (d_sched d)) (m_ServiceToBusName (d_stub d))"
    by (simp_all add: daemon_safe_def)
  have "n \<noteq> []" using assms(3) o by (blast dest: watcher_of_Some watch_ok_umap_ok watch_okD)
  from s obtain st' where st': "onServiceFailure n (d_sched d) = Inr st'" "lookup_service st' =
      (lookup_service (d_sched d))(n := map_option failed_info (lookup_service (d_sched d) n))"
    by (rule failure_returns)
  let ?stub' = "(d_stub d)\<lparr>m_ServiceToBusName := umap_erase n (m_ServiceToBusName (d_stub d))\<rparr>"
  have step: "daemon_step env (BusSignal msg) d = Inr (NoReply, \<lparr>d_sched = st', d_stub = ?stub'\<rparr>)"
    using w st'(1) handle_watched [OF assms(3) \<open>n \<noteq> []\<close>]
    unfolding step_signal [OF assms(2)] by (simp add: wired_def)
  moreover have "daemon_safe \<lparr>d_sched = st', d_stub = ?stub'\<rparr>"
    using daemon_step_safe [OF assms(1), of "BusSignal msg" env] step by simp
  ultimately show thesis
    using st'(2) by (intro that [of "\<lparr>d_sched = st', d_stub = ?stub'\<rparr>"]) (simp_all add: um.lookup_erase)
qed

section \<open>A concrete bus\<close>

text \<open>
  An instance of the environment on which the hypotheses below can be met: a client is its
  unique bus name, the pid query answers 4242, a signal is the triple it carries.
\<close>

definition demo_capi :: "(string, string, unit, string \<times> string \<times> string, nat) capi" where
  "demo_capi =
     \<lparr>asDBusClientId = Some, getDBusId = Some, isAlive = (\<lambda>_. True), sendPidQuery = (\<lambda>_ _. PidReply 4242),
      readNameOwnerChanged = (\<lambda>m. m), runtimeAvailable = True, runtimeRegister = (\<lambda>_ _. True),
      stubAdapterConnection = Some (Some ()), addSignalMemberHandler = (\<lambda>_ _ _ _ _ _. 1)\<rparr>"

definition demo_daemon :: "(string, string \<times> string \<times> string) event list \<Rightarrow> (unit, nat) daemon" where
  "demo_daemon es = snd (projr (run_ops (daemon_step demo_capi) es (snd (daemon_boot demo_capi))))"

lemma run_daemon_reachable:
  assumes "reachable (booted env) (daemon_trans_bounded env) d" and "list_all bounded_event es"
  shows "\<exists>rs d'. run_ops (daemon_step env) es d = Inr (rs, d') \<and>
    reachable (booted env) (daemon_trans_bounded env) d'"
  using assms
proof (induction es arbitrary: d)
  case Nil
  then show ?case by simp
next
  case (Cons e es)
  then obtain r d1 where 1: "daemon_step env e d = Inr (r, d1)"
    using daemon_step_safe [OF reachable_bounded_safe [OF Cons.prems(1)], of e env] by auto
  with Cons.prems have "reachable (booted env) (daemon_trans_bounded env) d1"
    by (auto intro: reachable_step daemon_trans_bounded.intros)
  with Cons 1 show ?case by fastforce
qed

lemma demo_booted: "booted demo_capi (snd (daemon_boot demo_capi))"
  by (simp add: booted_def daemon_boot_def demo_capi_def scheduler_run_def stub_run_def Let_def split_beta)

lemma demo_reachable:
  assumes "list_all bounded_event es"
  shows "reachable (booted demo_capi) (daemon_trans_bounded demo_capi) (demo_daemon es)"
proof -
  from run_daemon_reachable [OF reachable_init [of "booted demo_capi", OF demo_booted] assms]
  show ?thesis by (auto simp: demo_daemon_def)
qed

section \<open>Refinement\<close>

text \<open>
  C1: the whole daemon refines its specification. Any sequence of calls and bus signals in which
  the registered policies have at most 128 actions is handled without undefined behaviour, every
  reply is one the specification gives, and the final state represents the specification's final
  state: the scheduler's registry its service table, the stub's map its watch table.
\<close>

theorem daemon_refines_spec:
  assumes "list_all bounded_event es"
  shows "\<exists>rs d s. run_ops (daemon_step env) es (snd (daemon_boot env)) = Inr (rs, d)
    \<and> spec_traces env empty_spec es rs s \<and> sched_refines (d_sched d) (services s)
    \<and> peer_names (d_stub d) = watched s"
  using daemon_simulates_run [OF daemon_boot_refines assms, of env] by (blast dest: daemon_refinesD)

theorem daemon_refines_spec_witness:
  "\<exists>d s. run_ops (daemon_step demo_capi)
        [CallRegister (Some '':1.7'') ''AppA'' [0, 1] 5, BusSignal ('':1.7'', '':1.7'', [])]
        (snd (daemon_boot demo_capi)) = Inr ([RegisterReply Register_OK, NoReply], d)
    \<and> spec_traces demo_capi empty_spec
        [CallRegister (Some '':1.7'') ''AppA'' [0, 1] 5, BusSignal ('':1.7'', '':1.7'', [])]
        [RegisterReply Register_OK, NoReply] s
    \<and> sched_refines (d_sched d) (services s) \<and> peer_names (d_stub d) = watched s"
proof -
  let ?es = "[CallRegister (Some '':1.7'') ''AppA'' [0, 1] 5, BusSignal ('':1.7'', '':1.7'', [])]"
  obtain rs d s where run: "run_ops (daemon_step demo_capi) ?es (snd (daemon_boot demo_capi)) = Inr (rs, d)"
    and rest: "spec_traces demo_capi empty_spec ?es rs s" "sched_refines (d_sched d) (services s)"
      "peer_names (d_stub d) = watched s"
    using daemon_refines_spec [of ?es demo_capi] by auto
  have "fst (projr (run_ops (daemon_step demo_capi) ?es (snd (daemon_boot demo_capi)))) =
      [RegisterReply Register_OK, NoReply]" by code_simp
  with run have "rs = [RegisterReply Register_OK, NoReply]" by (simp del: run_ops.simps daemon_step.simps)
  with run rest show ?thesis by blast
qed

section \<open>Registration over the bus\<close>

text \<open>
  C15: in every reachable state a \<^verbatim>\<open>registerService\<close> call is answered \<^verbatim>\<open>OK\<close> exactly for
  catalogue names and \<^verbatim>\<open>INVALID_NAME\<close> otherwise (no other code is ever sent). After \<^verbatim>\<open>OK\<close>
  the service is online, and the caller's unique bus name (if it has one) with the pid the bus
  reports for it replaces what was watched for that service; after a refusal nothing changed.
\<close>

theorem register_over_bus:
  assumes "reachable (booted env) (daemon_trans env) d"
  shows "\<exists>d'. daemon_step env (CallRegister client n acts i) d =
      Inr (RegisterReply (if n \<in> snd ` set g_MapServiceNames then Register_OK else INVALID_NAME), d')
    \<and> (n \<notin> snd ` set g_MapServiceNames \<longrightarrow> d' = d)
    \<and> (n \<in> snd ` set g_MapServiceNames \<longrightarrow> service_online (d_sched d') n
        \<and> lookup_peer (d_stub d') =
            (if extractDbusUniqueName env client = [] then lookup_peer (d_stub d)
             else (lookup_peer (d_stub d))(n \<mapsto>
               \<lparr>uniqueBusName = extractDbusUniqueName env client,
                peer_pid = queryUnixPidForBusName env (d_stub d) (extractDbusUniqueName env client)\<rparr>)))"
proof -
  from reachable_any_ok [OF assms] have w: "scheduler_wired (d_stub d)" and ok: "sched_ok (d_sched d)"
    by (simp_all add: daemon_ok_def)
  let ?p = "queryUnixPidForBusName env (d_stub d) (extractDbusUniqueName env client)"
  let ?r = "onRegisterService n (map RecoveryState_of_wire acts) i ?p (d_sched d)"
  have iff: "fst ?r \<longleftrightarrow> n \<in> catalogue_names"
    using register_accepted_name [OF ok, of n] by (auto simp: register_result)
  show ?thesis
  proof (cases "n \<in> catalogue_names")
    case True
    then show ?thesis
      unfolding step_register [OF w] Let_def
      by (simp add: iff um.lookup_assign service_online_register flip: catalogue_names_def)
  next
    case False
    with iff register_refused [of n _ i ?p "d_sched d"] show ?thesis
      unfolding step_register [OF w] Let_def by (simp flip: catalogue_names_def)
  qed
qed

theorem register_over_bus_witness:
  "\<exists>d'. daemon_step demo_capi (CallRegister (Some '':1.7'') ''AppA'' [wire_RESTART] 5) (demo_daemon []) =
      Inr (RegisterReply Register_OK, d')
    \<and> service_online (d_sched d') ''AppA''
    \<and> lookup_peer (d_stub d') ''AppA'' = Some \<lparr>uniqueBusName = '':1.7'', peer_pid = 4242\<rparr>"
proof -
  have r: "reachable (booted demo_capi) (daemon_trans demo_capi) (demo_daemon [])"
    by (rule reachable_bounded_any [OF demo_reachable]) simp
  have "''AppA'' \<in> snd ` set g_MapServiceNames" by (simp add: g_MapServiceNames_def)
  moreover have "extractDbusUniqueName demo_capi (Some '':1.7'') = '':1.7''" by code_simp
  moreover have "queryUnixPidForBusName demo_capi (d_stub (demo_daemon [])) '':1.7'' = 4242" by code_simp
  ultimately show ?thesis
    using register_over_bus [OF r, of "Some '':1.7''" "''AppA''" "[wire_RESTART]" 5] by auto
qed

section \<open>Reachable states\<close>

text \<open>
  C6: in every reachable state, for every peer in the stub's watch table, the scheduler knows the
  service under a catalogue name and has it online, and the watched bus name is not empty. So a
  peer-loss signal always finds its service, and no offline or unregistered service is watched.
\<close>

theorem watched_services_online:
  assumes "reachable (booted env) (daemon_trans env) d" and "lookup_peer (d_stub d) n = Some peer"
  shows "\<exists>info. lookup_service (d_sched d) n = Some info \<and> isOnline info \<and> serviceName info = n
    \<and> n \<in> catalogue_names \<and> uniqueBusName peer \<noteq> []"
  using watched_registered [OF reachable_any_ok [OF assms(1)] assms(2)] .

theorem watched_services_online_witness:
  "\<exists>info. lookup_service (d_sched (demo_daemon [CallRegister (Some '':1.7'') ''AppA'' [0, 1] 5])) ''AppA'' = Some info
     \<and> isOnline info \<and> serviceName info = ''AppA'' \<and> ''AppA'' \<in> catalogue_names"
proof -
  let ?es = "[CallRegister (Some '':1.7'') ''AppA'' [0, 1] 5]"
  have r: "reachable (booted demo_capi) (daemon_trans demo_capi) (demo_daemon ?es)"
    by (rule reachable_bounded_any [OF demo_reachable]) simp
  have p: "lookup_peer (d_stub (demo_daemon ?es)) ''AppA'' = Some \<lparr>uniqueBusName = '':1.7'', peer_pid = 4242\<rparr>"
    by code_simp
  show ?thesis using watched_services_online [OF r p] by auto
qed

text \<open>
  As long as clients register policies of at most 128 actions, no sequence of calls and
  signals makes the daemon run into undefined behaviour: from every state it can reach, every
  further such event is handled.
\<close>

lemma bounded_clients_no_undefined_behaviour:
  assumes "reachable (booted env) (daemon_trans_bounded env) d" and "bounded_event e"
  shows "\<exists>r d'. daemon_step env e d = Inr (r, d')"
  using daemon_step_safe [OF reachable_bounded_safe [OF assms(1)] assms(2)] by blast

section \<open>Peer loss\<close>

text \<open>
  C3: crash detection end to end, in every state that is reached with policies of at most 128
  actions, for a service whose own policy has at most 127 (with exactly 128 the announcement is
  wrong). When the bus reports that the bus name watched for this service and for no other has
  lost its owner, the daemon takes exactly that service offline, records the crash, counts it (in
  32 bits), and moves it to the action its snapshot announced as next; the entry leaves the watch
  table and the snapshots of all other services stay as they were.
\<close>

theorem peer_loss_detected:
  assumes "reachable (booted env) (daemon_trans_bounded env) d"
    and "lookup_peer (d_stub d) n = Some peer"
    and "\<And>k p. lookup_peer (d_stub d) k = Some p \<Longrightarrow> uniqueBusName p = uniqueBusName peer \<Longrightarrow> k = n"
    and "readNameOwnerChanged env msg = (uniqueBusName peer, old, [])"
    and "lookup_service (d_sched d) n = Some info" and "length (recoveryActions info) \<le> 127"
  shows "\<exists>d' snap snap'. daemon_step env (BusSignal msg) d = Inr (NoReply, d')
    \<and> getServiceState n (d_sched d) = Inr snap \<and> getServiceState n (d_sched d') = Inr snap'
    \<and> snap_isOnline snap \<and> \<not> snap_isOnline snap' \<and> snap_lastAction snap' = CRASHED
    \<and> currentAction snap' = nextAction snap \<and> attemptCount snap' = sint (crashCount info + 1)
    \<and> lookup_peer (d_stub d') = (lookup_peer (d_stub d))(n := None)
    \<and> (\<forall>k. k \<noteq> n \<longrightarrow> getServiceState k (d_sched d') = getServiceState k (d_sched d))"
proof -
  note safe = reachable_bounded_safe [OF assms(1)]
  then have ss: "sched_safe (d_sched d)"
    and w: "watch_ok (service_online (d_sched d)) (m_ServiceToBusName (d_stub d))"
    by (simp_all add: daemon_safe_def)
  have "watcher_of (uniqueBusName peer) (d_stub d) = Some (n, peer)"
    using um.first_if_unique [OF watch_ok_umap_ok [OF w], of "\<lambda>_ p. uniqueBusName p = uniqueBusName peer" n]
      assms(2,3) by (metis (mono_tags, lifting) option.inject option.map(2))
  from step_peer_loss [OF safe assms(4) this] obtain d' where
      step: "daemon_step env (BusSignal msg) d = Inr (NoReply, d')" and "daemon_safe d'"
      and peers: "lookup_peer (d_stub d') = (lookup_peer (d_stub d))(n := None)"
      and look: "lookup_service (d_sched d') =
        (lookup_service (d_sched d))(n := map_option failed_info (lookup_service (d_sched d) n))"
    by blast
  then have ss': "sched_safe (d_sched d')" by (simp add: daemon_safe_def)
  let ?len = "length (recoveryActions info)"
  have "recoveryActions info \<noteq> []" and "cursor_ok ?len (recoveryActionCount info)"
    using sched_ok_info [OF sched_safe_ok [OF ss] assms(5)] sched_safe_info [OF ss assms(5)]
    by (simp_all add: info_ok_def info_safe_def)
  then have "peek_cursor ?len (recoveryActionCount info) = next_cursor ?len (recoveryActionCount info)"
    using assms(6) by (intro peek_cursor_eq_next) (simp_all add: sint_i8_of_size_small)
  moreover have "isOnline info" using watch_okD [OF w assms(2)] assms(5) by (simp add: service_online_def)
  ultimately show ?thesis
    using step peers look assms(5)
    by (simp add: getServiceState_safe [OF ss] getServiceState_safe [OF ss'] snapshot_of_def
        failed_info_def Let_def del: daemon_step.simps)
qed

theorem peer_loss_detected_witness:
  "\<exists>d' snap snap'. daemon_step demo_capi (BusSignal ('':1.7'', '':1.7'', []))
       (demo_daemon [CallRegister (Some '':1.7'') ''AppA'' [wire_STOP, wire_RESTART] 5]) = Inr (NoReply, d')
    \<and> getServiceState ''AppA''
        (d_sched (demo_daemon [CallRegister (Some '':1.7'') ''AppA'' [wire_STOP, wire_RESTART] 5])) = Inr snap
    \<and> getServiceState ''AppA'' (d_sched d') = Inr snap'
    \<and> snap_isOnline snap \<and> \<not> snap_isOnline snap' \<and> snap_lastAction snap' = CRASHED
    \<and> currentAction snap' = nextAction snap \<and> attemptCount snap' = 1"
proof -
  let ?d = "demo_daemon [CallRegister (Some '':1.7'') ''AppA'' [wire_STOP, wire_RESTART] 5]"
  have r: "reachable (booted demo_capi) (daemon_trans_bounded demo_capi) ?d"
    by (rule demo_reachable) simp
  have m: "m_ServiceToBusName (d_stub ?d) = [(''AppA'', \<lparr>uniqueBusName = '':1.7'', peer_pid = 4242\<rparr>)]"
    by code_simp
  have i: "lookup_service (d_sched ?d) ''AppA'' = Some (new_service_info ''AppA'' [STOP, RESTART] 5)"
    by code_simp
  have rd: "readNameOwnerChanged demo_capi ('':1.7'', '':1.7'', []) = ('':1.7'', '':1.7'', [])"
    by (simp add: demo_capi_def)
  have l: "lookup_peer (d_stub ?d) ''AppA'' = Some \<lparr>uniqueBusName = '':1.7'', peer_pid = 4242\<rparr>"
    by (simp add: m umap_find_def)
  have u: "k = ''AppA''" if "lookup_peer (d_stub ?d) k = Some p" for k p
    using that by (simp add: m umap_find_def split: if_splits)
  from peer_loss_detected [OF r l _ _ i, of "('':1.7'', '':1.7'', [])" "'':1.7''"] u rd
  show ?thesis by (auto simp: new_service_info_eq effective_policy_def simp del: daemon_step.simps)
qed

text \<open>
  C25: a restarted service. In every state reached with policies of at most 128 actions a known
  service that registers again, from any client and with any policy of that size, is back online with its
  crash count, last state (\<^verbatim>\<open>CRASHED\<close> after a crash), current and next action unchanged: the
  recovery sequence goes on where it stopped.
\<close>

theorem reregistration_after_crash:
  assumes "reachable (booted env) (daemon_trans_bounded env) d"
    and "getServiceState n (d_sched d) = Inr snap" and "found snap" and "bounded_event (CallRegister client n acts i)"
  shows "\<exists>d'. daemon_step env (CallRegister client n acts i) d = Inr (RegisterReply Register_OK, d')
    \<and> getServiceState n (d_sched d') = Inr (snap\<lparr>snap_isOnline := True\<rparr>)"
proof -
  have safe: "daemon_safe d" by (rule reachable_bounded_safe [OF assms(1)])
  then have w: "scheduler_wired (d_stub d)" and ss: "sched_safe (d_sched d)"
    by (simp_all add: daemon_safe_def)
  from assms(2,3) obtain info where info: "lookup_service (d_sched d) n = Some info"
    by (cases "lookup_service (d_sched d) n") (auto simp: getServiceState_safe [OF ss] no_snapshot_def)
  with assms(2) have snap: "snap = snapshot_of info" by (simp add: getServiceState_safe [OF ss])
  let ?p = "queryUnixPidForBusName env (d_stub d) (extractDbusUniqueName env client)"
  let ?r = "onRegisterService n (map RecoveryState_of_wire acts) i ?p (d_sched d)"
  have "sched_safe (snd ?r)" using ss assms(4) by (simp add: register_safe policy_safe_bounded)
  moreover have "lookup_service (snd ?r) n = Some (info\<lparr>isOnline := True\<rparr>)"
    using info by (simp add: lookup_register)
  ultimately have "getServiceState n (snd ?r) = Inr (snap\<lparr>snap_isOnline := True\<rparr>)"
    by (simp add: getServiceState_safe snap snapshot_of_def)
  moreover have "fst ?r" using info by (simp add: register_result)
  ultimately show ?thesis unfolding step_register [OF w] Let_def by simp
qed

theorem reregistration_after_crash_witness:
  "\<exists>d'. daemon_step demo_capi (CallRegister (Some '':1.9'') ''AppC'' [] 0)
      (demo_daemon [CallRegister (Some '':1.7'') ''AppC'' [wire_STOP, wire_RESTART] 5,
                    BusSignal ('':1.7'', '':1.7'', [])]) = Inr (RegisterReply Register_OK, d')
    \<and> getServiceState ''AppC'' (d_sched d') =
        Inr \<lparr>found = True, snap_isOnline = True, snap_lastAction = CRASHED, currentAction = STOP,
             nextAction = RESTART, attemptCount = 1\<rparr>"
proof -
  let ?d = "demo_daemon [CallRegister (Some '':1.7'') ''AppC'' [wire_STOP, wire_RESTART] 5,
                    BusSignal ('':1.7'', '':1.7'', [])]"
  have r: "reachable (booted demo_capi) (daemon_trans_bounded demo_capi) ?d"
    by (rule demo_reachable) simp
  have s: "getServiceState ''AppC'' (d_sched ?d) =
      Inr \<lparr>found = True, snap_isOnline = False, snap_lastAction = CRASHED, currentAction = STOP,
           nextAction = RESTART, attemptCount = 1\<rparr>"
    by code_simp
  from reregistration_after_crash [OF r s, of "Some '':1.9''" "[]" 0] show ?thesis
    by (simp del: daemon_step.simps)
qed

section \<open>Signals that must not matter\<close>

text \<open>
  C22: no false alarms. In every reachable state a \<^verbatim>\<open>NameOwnerChanged\<close> signal leaves the whole
  daemon untouched if the name still has an owner, if the signal names a peer that backs no
  watched service, or if its name could not be read (it is then empty).
\<close>

theorem benign_signals_ignored:
  assumes "reachable (booted env) (daemon_trans env) d" and "readNameOwnerChanged env msg = (b, old, new)"
    and "new \<noteq> [] \<or> b = [] \<or> b \<notin> ran (peer_names (d_stub d))"
  shows "daemon_step env (BusSignal msg) d = Inr (NoReply, d)"
proof (rule step_signal_ignored [OF assms(2)])
  note ok = reachable_any_ok [OF assms(1)]
  then have w: "watch_ok (service_online (d_sched d)) (m_ServiceToBusName (d_stub d))"
    by (simp add: daemon_ok_def)
  have "watcher_of [] (d_stub d) = None"
    using watch_okD [OF w] by (intro watcher_of_unwatched [OF ok]) auto
  then show "new \<noteq> [] \<or> watcher_of b (d_stub d) = None"
    using assms(3) peer_names_ran [OF watch_ok_umap_ok [OF w], of b] by auto
qed

theorem benign_signals_ignored_witness:
  "daemon_step demo_capi (BusSignal ('':1.8'', '':1.8'', [])) (demo_daemon [CallRegister (Some '':1.7'') ''AppA'' [0] 5])
     = Inr (NoReply, demo_daemon [CallRegister (Some '':1.7'') ''AppA'' [0] 5])"
proof -
  let ?d = "demo_daemon [CallRegister (Some '':1.7'') ''AppA'' [0] 5]"
  have r: "reachable (booted demo_capi) (daemon_trans demo_capi) ?d"
    by (rule reachable_bounded_any [OF demo_reachable]) simp
  have "m_ServiceToBusName (d_stub ?d) = [(''AppA'', \<lparr>uniqueBusName = '':1.7'', peer_pid = 4242\<rparr>)]"
    by code_simp
  then have "'':1.8'' \<notin> ran (peer_names (d_stub ?d))"
    by (auto simp: ran_def peer_names_def umap_find_def split: if_splits)
  then show ?thesis
    using benign_signals_ignored [OF r, of "('':1.8'', '':1.8'', [])" "'':1.8''" "'':1.8''" "[]"]
    by (simp add: demo_capi_def)
qed

text \<open>
  C20: the late death of a superseded process is no crash. When a service re-registers from a new
  connection, and its old bus name backs no other service, a loss of the old name that arrives
  afterwards changes nothing: the service stays online under its new name. (All policies have at
  most 128 actions.)
\<close>

theorem superseded_peer_ignored:
  assumes "reachable (booted env) (daemon_trans_bounded env) d" and "lookup_peer (d_stub d) n = Some peer"
    and "\<And>k p. lookup_peer (d_stub d) k = Some p \<Longrightarrow> uniqueBusName p = uniqueBusName peer \<Longrightarrow> k = n"
    and "extractDbusUniqueName env client \<notin> {[], uniqueBusName peer}" and "length acts \<le> 128"
    and "readNameOwnerChanged env msg = (uniqueBusName peer, old, [])"
  shows "\<exists>d'. run_ops (daemon_step env) [CallRegister client n acts i, BusSignal msg] d =
      Inr ([RegisterReply Register_OK, NoReply], d')
    \<and> service_online (d_sched d') n \<and> peer_names (d_stub d') n = Some (extractDbusUniqueName env client)"
proof -
  note safe = reachable_bounded_safe [OF assms(1)]
  have "n \<in> catalogue_names"
    using watched_registered [OF daemon_safe_ok [OF safe] assms(2)] by blast
  let ?b = "extractDbusUniqueName env client"
  let ?p = "queryUnixPidForBusName env (d_stub d) ?b"
  let ?w = "snd (onRegisterService n (map RecoveryState_of_wire acts) i ?p (d_sched d))"
  let ?d' = "\<lparr>d_sched = ?w, d_stub = (d_stub d)\<lparr>m_ServiceToBusName :=
      umap_assign n \<lparr>uniqueBusName = ?b, peer_pid = ?p\<rparr> (m_ServiceToBusName (d_stub d))\<rparr>\<rparr>"
  have w: "scheduler_wired (d_stub d)" using safe by (simp add: daemon_safe_def)
  have s1: "daemon_step env (CallRegister client n acts i) d = Inr (RegisterReply Register_OK, ?d')"
    using assms(4) \<open>n \<in> catalogue_names\<close> by (simp add: step_register [OF w] register_result Let_def del: daemon_step.simps)
  then have safe': "daemon_safe ?d'"
    using daemon_step_safe [OF safe, of "CallRegister client n acts i" env] assms(5) by simp
  have "watcher_of (uniqueBusName peer) (d_stub ?d') = None"
    by (rule watcher_of_unwatched [OF daemon_safe_ok [OF safe']])
      (use assms(3,4) in \<open>auto simp: um.lookup_assign split: if_splits\<close>)
  then have "daemon_step env (BusSignal msg) ?d' = Inr (NoReply, ?d')"
    by (intro step_signal_ignored [OF assms(6)]) simp
  with s1 have "run_ops (daemon_step env) [CallRegister client n acts i, BusSignal msg] d =
      Inr ([RegisterReply Register_OK, NoReply], ?d')" by (simp del: daemon_step.simps)
  moreover have "service_online ?w n" using \<open>n \<in> catalogue_names\<close> by (simp add: service_online_register)
  ultimately show ?thesis by (auto simp: peer_names_def um.lookup_assign)
qed

theorem superseded_peer_ignored_witness:
  "\<exists>d'. run_ops (daemon_step demo_capi)
        [CallRegister (Some '':1.9'') ''AppA'' [] 0, BusSignal ('':1.7'', '':1.7'', [])]
        (demo_daemon [CallRegister (Some '':1.7'') ''AppA'' [0] 5]) =
      Inr ([RegisterReply Register_OK, NoReply], d')
    \<and> service_online (d_sched d') ''AppA'' \<and> peer_names (d_stub d') ''AppA'' = Some '':1.9''"
proof -
  let ?d = "demo_daemon [CallRegister (Some '':1.7'') ''AppA'' [0] 5]"
  have r: "reachable (booted demo_capi) (daemon_trans_bounded demo_capi) ?d" by (rule demo_reachable) simp
  have m: "m_ServiceToBusName (d_stub ?d) = [(''AppA'', \<lparr>uniqueBusName = '':1.7'', peer_pid = 4242\<rparr>)]"
    by code_simp
  have l: "lookup_peer (d_stub ?d) ''AppA'' = Some \<lparr>uniqueBusName = '':1.7'', peer_pid = 4242\<rparr>"
    by (simp add: m umap_find_def)
  have u: "k = ''AppA''" if "lookup_peer (d_stub ?d) k = Some p" for k p
    using that by (simp add: m umap_find_def split: if_splits)
  have b: "extractDbusUniqueName demo_capi (Some '':1.9'') = '':1.9''" by code_simp
  have rd: "readNameOwnerChanged demo_capi ('':1.7'', '':1.7'', []) = ('':1.7'', '':1.7'', [])"
    by (simp add: demo_capi_def)
  from superseded_peer_ignored [OF r l, of "Some '':1.9''" "[]" "('':1.7'', '':1.7'', [])" "'':1.7''" 0] u b rd
  show ?thesis by (simp del: daemon_step.simps run_ops.simps)
qed

section \<open>Unregistration over the bus\<close>

text \<open>
  C21: a graceful shutdown is not a crash. In every reachable state \<^verbatim>\<open>unregisterService\<close> is
  answered \<^verbatim>\<open>OK\<close> exactly for registered services; afterwards the service is unknown and
  unwatched, every other service and watch is as before, and when the (unshared) bus name of the
  service then disappears, nothing happens.
\<close>

theorem unregister_over_bus:
  assumes "reachable (booted env) (daemon_trans env) d" and "readNameOwnerChanged env msg = (b, old, new)"
    and "\<And>k. k \<noteq> n \<Longrightarrow> peer_names (d_stub d) k \<noteq> Some b"
  shows "\<exists>d'. run_ops (daemon_step env) [CallUnregister client n, BusSignal msg] d =
      Inr ([UnregisterReply (if lookup_service (d_sched d) n = None then Unregister_NOT_FOUND else Unregister_OK),
            NoReply], d')
    \<and> lookup_service (d_sched d') = (lookup_service (d_sched d))(n := None)
    \<and> lookup_peer (d_stub d') = (lookup_peer (d_stub d))(n := None)"
proof -
  note ok = reachable_any_ok [OF assms(1)]
  then have w: "scheduler_wired (d_stub d)" and s: "sched_ok (d_sched d)" by (simp_all add: daemon_ok_def)
  let ?known = "lookup_service (d_sched d) n \<noteq> None"
  let ?stub = "if ?known then (d_stub d)\<lparr>m_ServiceToBusName := umap_erase n (m_ServiceToBusName (d_stub d))\<rparr>
    else d_stub d"
  let ?d' = "\<lparr>d_sched = snd (onUnregisterService n (d_sched d)), d_stub = ?stub\<rparr>"
  have d': "daemon_step env (CallUnregister client n) d =
      Inr (UnregisterReply (if ?known then Unregister_OK else Unregister_NOT_FOUND), ?d')"
    unfolding step_unregister [OF w s] Let_def ..
  have unwatched: "lookup_peer (d_stub d) n = None" if "lookup_service (d_sched d) n = None"
    using watched_registered [OF ok, of n] that by (cases "lookup_peer (d_stub d) n") auto
  have lp: "lookup_peer (d_stub ?d') = (lookup_peer (d_stub d))(n := None)"
    by (simp add: um.lookup_erase unwatched fun_upd_idem)
  have "daemon_ok ?d'" using ok d' by (rule daemon_step_ok)
  then have "watcher_of b (d_stub ?d') = None"
    by (rule watcher_of_unwatched)
      (use assms(3) in \<open>unfold lp, auto simp: peer_names_def split: if_splits\<close>)
  then have "daemon_step env (BusSignal msg) ?d' = Inr (NoReply, ?d')"
    by (intro step_signal_ignored [OF assms(2)]) simp
  with d' lp show ?thesis by (auto simp: lookup_unregister [OF s] simp del: daemon_step.simps)
qed

theorem unregister_over_bus_witness:
  "\<exists>d'. run_ops (daemon_step demo_capi) [CallUnregister None ''AppA'', BusSignal ('':1.7'', '':1.7'', [])]
      (demo_daemon [CallRegister (Some '':1.7'') ''AppA'' [0] 5]) =
      Inr ([UnregisterReply Unregister_OK, NoReply], d')
    \<and> lookup_service (d_sched d') ''AppA'' = None \<and> lookup_peer (d_stub d') ''AppA'' = None"
proof -
  let ?d = "demo_daemon [CallRegister (Some '':1.7'') ''AppA'' [0] 5]"
  have r: "reachable (booted demo_capi) (daemon_trans demo_capi) ?d"
    by (rule reachable_bounded_any [OF demo_reachable]) simp
  have m: "m_ServiceToBusName (d_stub ?d) = [(''AppA'', \<lparr>uniqueBusName = '':1.7'', peer_pid = 4242\<rparr>)]"
    by code_simp
  have i: "lookup_service (d_sched ?d) ''AppA'' = Some (new_service_info ''AppA'' [RESTART] 5)" by code_simp
  have rd: "readNameOwnerChanged demo_capi ('':1.7'', '':1.7'', []) = ('':1.7'', '':1.7'', [])"
    by (simp add: demo_capi_def)
  have u: "peer_names (d_stub ?d) k \<noteq> Some '':1.7''" if "k \<noteq> ''AppA''" for k
    using that by (simp add: m peer_names_def umap_find_def)
  from unregister_over_bus [OF r rd, of "''AppA''" None] u i
  show ?thesis by (auto simp del: daemon_step.simps run_ops.simps)
qed

section \<open>One process behind several services\<close>

text \<open>
  C24: when one connection has registered two services and dies, in a state reached with policies
  of at most 128 actions, the handler stops at the first entry it meets: one of the two is failed, the other stays online and stays watched under the
  bus name that no longer exists.
\<close>

theorem shared_bus_name_fails_one:
  assumes "reachable (booted env) (daemon_trans_bounded env) d"
    and "peer_names (d_stub d) m = Some b" and "peer_names (d_stub d) n = Some b" and "m \<noteq> n"
    and "readNameOwnerChanged env msg = (b, old, [])"
  shows "\<exists>d' k. daemon_step env (BusSignal msg) d = Inr (NoReply, d') \<and> k \<in> {m, n}
    \<and> service_online (d_sched d') k \<and> peer_names (d_stub d') k = Some b"
proof -
  note safe = reachable_bounded_safe [OF assms(1)]
  then have w: "watch_ok (service_online (d_sched d)) (m_ServiceToBusName (d_stub d))"
    by (simp add: daemon_safe_def)
  have "b \<in> ran (peer_names (d_stub d))" using assms(2) by (rule ranI)
  then obtain key peer where "watcher_of b (d_stub d) = Some (key, peer)"
    using peer_names_ran [OF watch_ok_umap_ok [OF w], of b] by auto
  from step_peer_loss [OF safe assms(5) this] obtain d' where
      step: "daemon_step env (BusSignal msg) d = Inr (NoReply, d')"
      and peers: "lookup_peer (d_stub d') = (lookup_peer (d_stub d))(key := None)"
      and look: "lookup_service (d_sched d') =
        (lookup_service (d_sched d))(key := map_option failed_info (lookup_service (d_sched d) key))"
    by blast
  define k where "k = (if key = m then n else m)"
  have "k \<noteq> key" "k \<in> {m, n}" "peer_names (d_stub d) k = Some b" using assms(2-4) by (auto simp: k_def)
  moreover from this obtain p where "lookup_peer (d_stub d) k = Some p" by (auto simp: peer_names_def)
  ultimately have "service_online (d_sched d') k" "peer_names (d_stub d') k = Some b"
    using watch_okD [OF w] by (simp_all add: service_online_def look peer_names_def peers)
  with step \<open>k \<in> {m, n}\<close> show ?thesis by blast
qed

theorem shared_bus_name_fails_one_witness:
  "\<exists>d' k. daemon_step demo_capi (BusSignal ('':1.7'', '':1.7'', []))
       (demo_daemon [CallRegister (Some '':1.7'') ''AppA'' [0] 5, CallRegister (Some '':1.7'') ''AppB'' [1] 5])
      = Inr (NoReply, d') \<and> k \<in> {''AppA'', ''AppB''}
    \<and> service_online (d_sched d') k \<and> peer_names (d_stub d') k = Some '':1.7''"
proof -
  let ?d = "demo_daemon [CallRegister (Some '':1.7'') ''AppA'' [0] 5, CallRegister (Some '':1.7'') ''AppB'' [1] 5]"
  have r: "reachable (booted demo_capi) (daemon_trans_bounded demo_capi) ?d" by (rule demo_reachable) simp
  have "peer_names (d_stub ?d) ''AppA'' = Some '':1.7''" "peer_names (d_stub ?d) ''AppB'' = Some '':1.7''"
    by code_simp+
  moreover have "readNameOwnerChanged demo_capi ('':1.7'', '':1.7'', []) = ('':1.7'', '':1.7'', [])"
    by (simp add: demo_capi_def)
  ultimately show ?thesis by (intro shared_bus_name_fails_one [OF r]) auto
qed

section \<open>Start-up\<close>

text \<open>
  C35: \<^verbatim>\<open>run\<close> succeeds exactly when the CommonAPI runtime exists and accepts the service under its
  domain and instance. Whether the daemon can see peers die is not part of that result: it holds
  the connection and the subscription exactly if the stub adapter also has a D-Bus connection, and
  without one every pid query answers \<open>-1\<close>.
\<close>

theorem boot_outcome:
  "(fst (daemon_boot env) \<longleftrightarrow>
      runtimeAvailable env \<and> runtimeRegister env ''local'' ''com.bmw.recovery.RecoveryScheduler'')
   \<and> (m_SignalConn (d_stub (snd (daemon_boot env))) =
        (if fst (daemon_boot env) then Option.bind (stubAdapterConnection env) id else None))
   \<and> (m_SignalToken (d_stub (snd (daemon_boot env))) = None \<longleftrightarrow>
        m_SignalConn (d_stub (snd (daemon_boot env))) = None)
   \<and> (m_SignalConn (d_stub (snd (daemon_boot env))) = None \<longrightarrow>
        queryUnixPidForBusName env (d_stub (snd (daemon_boot env))) busName = - 1)"
  by (simp add: daemon_boot_def new_instance_def scheduler_run_def scheduler_init_def setCallbacks_def
      stub_run_def new_stub_def queryUnixPidForBusName_def lock_conn_def Let_def split_beta
      split: option.split)

theorem boot_outcome_witness:
  "fst (daemon_boot (demo_capi\<lparr>stubAdapterConnection := None\<rparr>))
   \<and> queryUnixPidForBusName (demo_capi\<lparr>stubAdapterConnection := None\<rparr>)
       (d_stub (snd (daemon_boot (demo_capi\<lparr>stubAdapterConnection := None\<rparr>)))) '':1.7'' = - 1"
  using boot_outcome [of "demo_capi\<lparr>stubAdapterConnection := None\<rparr>" "'':1.7''"]
  by (simp add: demo_capi_def)

text \<open>
  Before the callbacks are installed the stub answers every request with an error
  (\<^verbatim>\<open>INVALID_NAME\<close>, \<^verbatim>\<open>NOT_FOUND\<close>) and no request or signal changes any state; with the
  callbacks that \<^verbatim>\<open>init\<close> installs, a catalogue name is accepted in the initial state.
\<close>

lemma unwired_stub_refuses:
  "fst (registerService env client n acts i new_stub w) = INVALID_NAME
   \<and> snd (registerService env client n acts i new_stub w) = (new_stub, w)
   \<and> unregisterService client n new_stub w = (Unregister_NOT_FOUND, new_stub, w)
   \<and> reportServiceState client n c l new_stub w = (Query_NOT_FOUND, new_stub, w)
   \<and> onSignalDBusMessage env msg new_stub w = Inr (new_stub, w)
   \<and> (fst (registerService env client n acts i (scheduler_init new_stub) init_scheduler) = Register_OK
        \<longleftrightarrow> n \<in> catalogue_names)"
  by (simp add: registerService_def unregisterService_def reportServiceState_def onSignalDBusMessage_def
      handleNameOwnerChanged_def umap_find_if_def new_stub_def scheduler_init_def setCallbacks_def Let_def
      register_result split_beta)

section \<open>The enumeration across the bus\<close>

text \<open>
  C39: what a client calls a recovery state is what the operator reads. A service registers a
  non-empty policy and then reports its current and last state, all written with the literals of
  the interface description: both calls are answered \<^verbatim>\<open>OK\<close>, the policy the scheduler stores renders
  (\<^verbatim>\<open>toString\<close>) as the names of those literals in order, so do the two reported states, and the
  broadcast of any policy entry carries the literal the client sent.
\<close>

theorem literals_survive_the_bus:
  assumes "reachable (booted env) (daemon_trans env) d" and "n \<in> catalogue_names"
    and "lookup_service (d_sched d) n = None" and "set lits \<subseteq> set fidl_RecoveryState" and "lits \<noteq> []"
    and "(cur, c) \<in> set fidl_RecoveryState" and "(lst, l) \<in> set fidl_RecoveryState"
  shows "\<exists>d' info. run_ops (daemon_step env) [CallRegister client n (map snd lits) i, CallReport client' n c l] d =
      Inr ([RegisterReply Register_OK, QueryReply Query_OK], d')
    \<and> lookup_service (d_sched d') n = Some info
    \<and> map toString (recoveryActions info) = map fst lits
    \<and> toString (currentRecoveryState info) = cur \<and> toString (lastAction info) = lst
    \<and> map (notifyStateChanged n) (recoveryActions info) = map (Pair n \<circ> snd) lits"
proof -
  have ok: "daemon_ok d" using assms(1) by (rule reachable_any_ok)
  then have w: "scheduler_wired (d_stub d)" by (simp add: daemon_ok_def)
  let ?acts = "map (RecoveryState_of_wire \<circ> snd) lits"
  let ?b = "extractDbusUniqueName env client"
  let ?p = "queryUnixPidForBusName env (d_stub d) ?b"
  let ?st = "snd (onRegisterService n ?acts i ?p (d_sched d))"
  have "fst (onRegisterService n ?acts i ?p (d_sched d))" using assms(2) by (simp add: register_result)
  then obtain d1 where step: "daemon_step env (CallRegister client n (map snd lits) i) d = Inr (RegisterReply Register_OK, d1)"
      and d1: "d_sched d1 = ?st"
    unfolding step_register [OF w] Let_def by (auto simp: comp_def)
  have w1: "scheduler_wired (d_stub d1)" using daemon_step_ok [OF ok step] by (simp add: daemon_ok_def)
  have look: "lookup_service (d_sched d1) n = Some (new_service_info n ?acts i)"
    using assms(2,3) by (simp add: d1 lookup_register)
  let ?r = "onReportServiceState n (RecoveryState_of_wire c) (RecoveryState_of_wire l) (d_sched d1)"
  have "fst ?r" using look by (simp add: onReportServiceState_def)
  then have rep: "daemon_step env (CallReport client' n c l) d1 = Inr (QueryReply Query_OK, \<lparr>d_sched = snd ?r, d_stub = d_stub d1\<rparr>)"
    using w1 by (simp add: reportServiceState_def wired_def Let_def split_beta)
  have names: "toString (RecoveryState_of_wire (snd x)) = fst x" "wire_of_RecoveryState (RecoveryState_of_wire (snd x)) = snd x"
    if "x \<in> set lits" for x
    using that assms(4) fidl_literal [of "fst x" "snd x"] by auto
  have "run_ops (daemon_step env) [CallRegister client n (map snd lits) i, CallReport client' n c l] d =
      Inr ([RegisterReply Register_OK, QueryReply Query_OK], \<lparr>d_sched = snd ?r, d_stub = d_stub d1\<rparr>)"
    using step rep by (simp del: daemon_step.simps)
  moreover have "\<exists>info. lookup_service (snd ?r) n = Some info \<and> map toString (recoveryActions info) = map fst lits
    \<and> toString (currentRecoveryState info) = cur \<and> toString (lastAction info) = lst
    \<and> map (notifyStateChanged n) (recoveryActions info) = map (Pair n \<circ> snd) lits"
    using look assms(5) names fidl_literal [OF assms(6)] fidl_literal [OF assms(7)]
    by (auto simp: lookup_report new_service_info_eq effective_policy_def notifyStateChanged_def)
  ultimately show ?thesis by auto
qed

theorem literals_survive_the_bus_witness:
  "\<exists>d' info. run_ops (daemon_step demo_capi)
      [CallRegister (Some '':1.7'') ''AppA'' [wire_STOP, wire_DISABLE] 5, CallReport (Some '':1.7'') ''AppA'' wire_CRASHED wire_UNKNOWN]
      (demo_daemon []) = Inr ([RegisterReply Register_OK, QueryReply Query_OK], d')
    \<and> lookup_service (d_sched d') ''AppA'' = Some info
    \<and> map toString (recoveryActions info) = [''STOP'', ''DISABLE'']
    \<and> toString (currentRecoveryState info) = ''CRASHED'' \<and> toString (lastAction info) = ''UNKNOWN''"
proof -
  have r: "reachable (booted demo_capi) (daemon_trans demo_capi) (demo_daemon [])"
    by (rule reachable_bounded_any [OF demo_reachable]) simp
  have n: "''AppA'' \<in> catalogue_names" by (simp add: catalogue_names_def g_MapServiceNames_def)
  have k: "lookup_service (d_sched (demo_daemon [])) ''AppA'' = None" by code_simp
  let ?lits = "[(''STOP'', wire_STOP), (''DISABLE'', wire_DISABLE)]"
  have "set ?lits \<subseteq> set fidl_RecoveryState" "?lits \<noteq> []" "(''CRASHED'', wire_CRASHED) \<in> set fidl_RecoveryState"
    "(''UNKNOWN'', wire_UNKNOWN) \<in> set fidl_RecoveryState" by (simp_all add: fidl_RecoveryState_def)
  from literals_survive_the_bus [OF r n k this, of "Some '':1.7''" 5 "Some '':1.7''"] obtain d' info where
      "run_ops (daemon_step demo_capi) [CallRegister (Some '':1.7'') ''AppA'' (map snd ?lits) 5,
         CallReport (Some '':1.7'') ''AppA'' wire_CRASHED wire_UNKNOWN] (demo_daemon []) =
         Inr ([RegisterReply Register_OK, QueryReply Query_OK], d')"
      "lookup_service (d_sched d') ''AppA'' = Some info" "map toString (recoveryActions info) = map fst ?lits"
      "toString (currentRecoveryState info) = ''CRASHED''" "toString (lastAction info) = ''UNKNOWN''"
    by (elim exE conjE)
  then show ?thesis unfolding list.map snd_conv fst_conv by (intro exI conjI)
qed

end
