(* ===== verification/Interleaving.thy ===== *)
theory Interleaving
  imports Scheduler_Spec
begin

text \<open>
  The scheduler's operations as threads interleave them. \<^verbatim>\<open>m_MutxServiceInfo\<close> guards every
  operation as a whole except \<^verbatim>\<open>onRegisterService\<close>: it looks the name up before it takes the
  lock and then either emplaces a record or writes through the iterator it found. The two halves
  are separate steps here; the other operations are one step each. The unlocked lookup itself is
  taken to be atomic; \<open>Locking\<close> drops that.

  When an iterator may be used is what C++ says of \<^verbatim>\<open>std::unordered_map\<close>: erasing its element
  invalidates it, and so does an insertion that rehashes the table. Whether an insertion rehashes
  is the library's choice, an argument of the inserting step. An iterator carries the number of
  erasures of its key and of rehashes it has seen; every step that changes the registry goes
  through \<open>commit\<close>, which compares the tables before and after and counts each key that is gone,
  whatever operation removed it.
\<close>

section \<open>Threads\<close>

datatype pc =
    Idle
  | Have_iterator string nat nat                       \<comment> \<open>\<^verbatim>\<open>itFind != end()\<close>, before the lock\<close>
  | Must_emplace string "RecoveryState list" i32       \<comment> \<open>name valid, before the lock\<close>

record concurrent =
  shared :: CRecoveryScheduler
  erased :: "string \<Rightarrow> nat"
  rehashed :: nat
  pcs :: "nat \<Rightarrow> pc"
  replied :: "nat \<Rightarrow> bool option"

datatype action =
    Begin_register nat string "RecoveryState list" i32
  | Finish_register nat bool                           \<comment> \<open>the flag: an insertion rehashes\<close>
  | Do_unregister string
  | Do_report string RecoveryState RecoveryState
  | Do_failure string

definition erasures :: "CRecoveryScheduler \<Rightarrow> CRecoveryScheduler \<Rightarrow> (string \<Rightarrow> nat) \<Rightarrow> string \<Rightarrow> nat" where
  "erasures st st' counts n =
     (if lookup_service st n \<noteq> None \<and> lookup_service st' n = None then Suc (counts n) else counts n)"

definition insertions :: "CRecoveryScheduler \<Rightarrow> string \<Rightarrow> nat" where
  "insertions st n = (if lookup_service st n = None then 1 else 0)"

definition commit :: "CRecoveryScheduler \<Rightarrow> concurrent \<Rightarrow> concurrent" where
  "commit st c = c\<lparr>shared := st, erased := erasures (shared c) st (erased c)\<rparr>"

text \<open>\<open>None\<close>: the action is not enabled.\<close>

fun thread_step :: "action \<Rightarrow> concurrent \<Rightarrow> concurrent result option" where
  "thread_step (Begin_register t n acts i) c =
     (if pcs c t \<noteq> Idle then None
      else Some (Inr (case lookup_service (shared c) n of
        None \<Rightarrow>
          if isNameValid n then c\<lparr>pcs := (pcs c)(t := Must_emplace n acts i), replied := (replied c)(t := None)\<rparr>
          else c\<lparr>replied := (replied c)(t := Some False)\<rparr>
      | Some _ \<Rightarrow>
          c\<lparr>pcs := (pcs c)(t := Have_iterator n (erased c n) (rehashed c)), replied := (replied c)(t := None)\<rparr>)))"
| "thread_step (Finish_register t grow) c =
     (case pcs c t of
        Idle \<Rightarrow> None
      | Must_emplace n acts i \<Rightarrow>
          Some (Inr (commit ((shared c)\<lparr>m_MapServiceInfo :=
                        umap_emplace n (new_service_info n acts i) (m_MapServiceInfo (shared c))\<rparr>)
                      (c\<lparr>rehashed := rehashed c + (if grow then insertions (shared c) n else 0),
                         pcs := (pcs c)(t := Idle), replied := (replied c)(t := Some True)\<rparr>)))
      | Have_iterator n g r \<Rightarrow>
          Some (if erased c n = g \<and> rehashed c = r
                then Inr (commit ((shared c)\<lparr>m_MapServiceInfo :=
                             umap_modify n (\<lambda>info. info\<lparr>isOnline := True\<rparr>) (m_MapServiceInfo (shared c))\<rparr>)
                           (c\<lparr>pcs := (pcs c)(t := Idle), replied := (replied c)(t := Some True)\<rparr>))
                else Inl DanglingIterator))"
| "thread_step (Do_unregister n) c = Some (Inr (commit (snd (onUnregisterService n (shared c))) c))"
| "thread_step (Do_report n lCurrent lLast) c =
     Some (Inr (commit (snd (onReportServiceState n lCurrent lLast (shared c))) c))"
| "thread_step (Do_failure n) c =
     Some (bind_result (onServiceFailure n (shared c)) (\<lambda>st. Inr (commit st c)))"

definition start :: concurrent where
  "start = \<lparr>shared = init_scheduler, erased = (\<lambda>_. 0), rehashed = 0, pcs = (\<lambda>_. Idle), replied = (\<lambda>_. None)\<rparr>"

fun run_threads :: "action list \<Rightarrow> concurrent \<Rightarrow> concurrent result option" where
  "run_threads [] c = Some (Inr c)"
| "run_threads (x # xs) c =
     (case thread_step x c of
        None \<Rightarrow> None
      | Some (Inl e) \<Rightarrow> Some (Inl e)
      | Some (Inr c') \<Rightarrow> run_threads xs c')"

text \<open>
  The steps that take away an iterator to a service: its unregistration, and an insertion that
  really links a node and rehashes.
\<close>

fun invalidates :: "string \<Rightarrow> action \<Rightarrow> concurrent \<Rightarrow> bool" where
  "invalidates n (Do_unregister m) c = (m = n \<and> lookup_service (shared c) n \<noteq> None)"
| "invalidates n (Finish_register u grow) c =
     (grow \<and> (case pcs c u of Must_emplace m acts i \<Rightarrow> lookup_service (shared c) m = None | _ \<Rightarrow> False))"
| "invalidates n _ c = False"

text \<open>The thread a registration step belongs to.\<close>

fun acting :: "action \<Rightarrow> nat option" where
  "acting (Begin_register t n acts i) = Some t"
| "acting (Finish_register t grow) = Some t"
| "acting _ = None"

inductive interleave :: "concurrent \<Rightarrow> action \<Rightarrow> concurrent \<Rightarrow> bool" where
  "thread_step x c = Some (Inr c') \<Longrightarrow> interleave c x c'"

inductive_cases interleaveE [elim!]: "interleave c x c'"

section \<open>Invariants under every interleaving\<close>

text \<open>
  A thread about to emplace has a catalogue name; an iterator whose element has not been erased
  still has it.
\<close>

fun pc_ok :: "concurrent \<Rightarrow> pc \<Rightarrow> bool" where
  "pc_ok c Idle = True"
| "pc_ok c (Must_emplace n acts i) = (n \<in> catalogue_names)"
| "pc_ok c (Have_iterator n g r) =
     (n \<in> catalogue_names \<and> g \<le> erased c n \<and> (g = erased c n \<longrightarrow> lookup_service (shared c) n \<noteq> None))"

definition conc_ok :: "concurrent \<Rightarrow> bool" where
  "conc_ok c \<longleftrightarrow> sched_ok (shared c) \<and> (\<forall>t. pc_ok c (pcs c t))"

text \<open>The two halves of a registration, on an arbitrary registry, as updates of the atomic model.\<close>

abbreviation emplace_service :: "string \<Rightarrow> RecoveryState list \<Rightarrow> i32 \<Rightarrow> CRecoveryScheduler \<Rightarrow> CRecoveryScheduler" where
  "emplace_service n acts i st \<equiv>
     st\<lparr>m_MapServiceInfo := umap_emplace n (new_service_info n acts i) (m_MapServiceInfo st)\<rparr>"

abbreviation set_online :: "string \<Rightarrow> CRecoveryScheduler \<Rightarrow> CRecoveryScheduler" where
  "set_online n st \<equiv>
     st\<lparr>m_MapServiceInfo := umap_modify n (\<lambda>info. info\<lparr>isOnline := True\<rparr>) (m_MapServiceInfo st)\<rparr>"

lemma emplace_is_register:
  "n \<in> catalogue_names \<Longrightarrow> lookup_service st n = None \<Longrightarrow> emplace_service n acts i st = snd (onRegisterService n acts i p st)"
  by (simp add: onRegisterService_def isNameValid_iff)

lemma emplace_present: "lookup_service st n \<noteq> None \<Longrightarrow> emplace_service n acts i st = st"
  by (simp add: umap_emplace_def)

lemma set_online_is_register:
  "lookup_service st n \<noteq> None \<Longrightarrow> set_online n st = snd (onRegisterService n acts i p st)"
  by (auto simp: onRegisterService_def split: option.split)

lemma emplace_keeps:
  assumes "n \<in> catalogue_names"
  shows "sched_ok st \<Longrightarrow> sched_ok (emplace_service n acts i st)"
    and "sched_safe st \<Longrightarrow> length acts \<le> 128 \<Longrightarrow> sched_safe (emplace_service n acts i st)"
  by (cases "lookup_service st n";
      simp add: emplace_present emplace_is_register [OF assms, of _ _ _ 0] register_ok register_safe policy_safe_small)+

lemma set_online_keeps:
  assumes "lookup_service st n \<noteq> None"
  shows "sched_ok st \<Longrightarrow> sched_ok (set_online n st)" and "sched_safe st \<Longrightarrow> sched_safe (set_online n st)"
  unfolding set_online_is_register [OF assms, of "[]" 0 0]
  by (simp_all add: register_ok register_safe policy_safe_small)

text \<open>What each step keeps of the set of known services.\<close>

abbreviation known :: "CRecoveryScheduler \<Rightarrow> string set" where
  "known st \<equiv> dom (lookup_service st)"

lemma known_after:
  "known st \<subseteq> known (emplace_service n acts i st)" "known st \<subseteq> known (set_online n st)"
  "known st \<subseteq> known (snd (onReportServiceState n c l st))"
  by (auto simp: um.lookup_emplace um.lookup_modify lookup_report dom_def)

lemmas known_keeps = known_after [simplified]

lemma known_after_failure:
  assumes "sched_ok st" and "onServiceFailure n st = Inr st'"
  shows "known st \<subseteq> known st'"
  using assms by (auto simp: failure_eq um.lookup_modify bind_result_Inr_iff split: option.splits if_splits)

lemma registered_in_catalogue: "sched_ok st \<Longrightarrow> lookup_service st n \<noteq> None \<Longrightarrow> n \<in> catalogue_names"
  using sched_ok_info [of st n] by (auto simp: info_ok_def)

text \<open>A step that forgets no service erases nothing; what \<open>commit\<close> does to the fields.\<close>

lemma erasures_none: "known st \<subseteq> known st' \<Longrightarrow> erasures st st' counts = counts"
  by (rule ext) (auto simp: erasures_def)

lemma erasures_mono: "counts n \<le> erasures st st' counts n"
  by (simp add: erasures_def)

lemma commit_fields [simp]:
  "shared (commit st c) = st" "erased (commit st c) = erasures (shared c) st (erased c)"
  "rehashed (commit st c) = rehashed c" "pcs (commit st c) = pcs c" "replied (commit st c) = replied c"
  by (simp_all add: commit_def)

text \<open>Every committed table change that keeps the registry's invariant keeps the threads' one.\<close>

lemma commit_ok:
  assumes "conc_ok c" and "sched_ok st" and "shared c' = shared c" "erased c' = erased c"
    and "\<And>u. pcs c' u = pcs c u \<or> pcs c' u = Idle"
  shows "conc_ok (commit st c')"
proof -
  have "pc_ok (commit st c') (pcs c u)" for u
  proof (cases "pcs c u")
    case (Have_iterator n g r)
    with assms(1) have "n \<in> catalogue_names" "g \<le> erased c n" "g = erased c n \<longrightarrow> lookup_service (shared c) n \<noteq> None"
      unfolding conc_ok_def by (metis pc_ok.simps(3))+
    with Have_iterator assms(3,4) show ?thesis by (auto simp: erasures_def split: if_splits)
  next
    case (Must_emplace n acts i)
    with assms(1) show ?thesis unfolding conc_ok_def by (metis pc_ok.simps(2))
  qed simp
  with assms(2,5) show ?thesis unfolding conc_ok_def by (metis commit_fields(1,4) pc_ok.simps(1))
qed

lemma begin_keeps:
  assumes "conc_ok c" and "thread_step (Begin_register t n acts i) c = Some (Inr c')"
  shows "conc_ok c'"
proof -
  have c': "shared c' = shared c" "erased c' = erased c"
    "pcs c' = pcs c \<or> n \<in> catalogue_names \<and> pcs c' = (pcs c)(t := Must_emplace n acts i)
      \<or> lookup_service (shared c) n \<noteq> None \<and> pcs c' = (pcs c)(t := Have_iterator n (erased c n) (rehashed c))"
    using assms(2) by (auto simp: isNameValid_iff split: if_splits option.splits)
  have frame: "pc_ok c' p = pc_ok c p" for p by (cases p; simp add: c')
  from assms(1) c'(3) registered_in_catalogue [of "shared c" n] show ?thesis
    by (auto simp: conc_ok_def frame c'(1))
qed

lemma finish_cases:
  assumes "thread_step (Finish_register t grow) c = Some r"
  obtains (emplace) n acts i where "pcs c t = Must_emplace n acts i"
      "r = Inr (commit (emplace_service n acts i (shared c))
         (c\<lparr>rehashed := rehashed c + (if grow then insertions (shared c) n else 0),
            pcs := (pcs c)(t := Idle), replied := (replied c)(t := Some True)\<rparr>))"
    | (online) n where "pcs c t = Have_iterator n (erased c n) (rehashed c)"
      "r = Inr (commit (set_online n (shared c)) (c\<lparr>pcs := (pcs c)(t := Idle), replied := (replied c)(t := Some True)\<rparr>))"
    | (dangling) n g k where "pcs c t = Have_iterator n g k" "erased c n \<noteq> g \<or> rehashed c \<noteq> k" "r = Inl DanglingIterator"
proof (cases "pcs c t")
  case Idle
  with assms show thesis by simp
next
  case (Have_iterator n g k)
  with assms show thesis
    by (cases "erased c n = g \<and> rehashed c = k") (auto intro: online [of n] dangling [of n g k])
next
  case (Must_emplace n acts i)
  with assms show thesis by (intro emplace [of n acts i]) auto
qed

lemma finish_keeps:
  assumes "conc_ok c" and "thread_step (Finish_register t grow) c = Some (Inr c')"
  shows "conc_ok c'"
proof -
  have so: "sched_ok (shared c)" and pc: "pc_ok c (pcs c t)" using assms(1) by (simp_all add: conc_ok_def)
  from assms(2) show ?thesis
  proof (cases rule: finish_cases)
    case (emplace n acts i)
    then have c': "c' = commit (emplace_service n acts i (shared c))
         (c\<lparr>rehashed := rehashed c + (if grow then insertions (shared c) n else 0),
            pcs := (pcs c)(t := Idle), replied := (replied c)(t := Some True)\<rparr>)" by simp
    have "sched_ok (emplace_service n acts i (shared c))" using emplace(1) pc so by (simp add: emplace_keeps)
    then show ?thesis unfolding c' by (rule commit_ok [OF assms(1)]) simp_all
  next
    case (online n)
    then have c': "c' = commit (set_online n (shared c)) (c\<lparr>pcs := (pcs c)(t := Idle), replied := (replied c)(t := Some True)\<rparr>)"
      by simp
    have "lookup_service (shared c) n \<noteq> None" using online(1) pc by simp
    then have "sched_ok (set_online n (shared c))" using so by (simp add: set_online_keeps)
    then show ?thesis unfolding c' by (rule commit_ok [OF assms(1)]) simp_all
  qed simp
qed

lemma interleave_ok:
  assumes "conc_ok c" and "thread_step x c = Some (Inr c')"
  shows "conc_ok c'"
proof (cases x)
  case (Begin_register t n acts i)
  with assms begin_keeps show ?thesis by blast
next
  case (Finish_register t grow)
  with assms finish_keeps show ?thesis by blast
qed (use assms in \<open>auto simp: bind_result_Inr_iff conc_ok_def [of c] intro!: commit_ok [OF assms(1)]
      intro: unregister_ok report_ok failure_ok\<close>)

lemma start_ok: "conc_ok start"
  by (simp add: conc_ok_def start_def sched_safe_ok init_scheduler_safe)

interpretation threads: transition_system "\<lambda>c. c = start" interleave conc_ok
  by unfold_locales (auto intro: start_ok interleave_ok)

lemma run_threads_reachable:
  "reachable (\<lambda>c. c = start) interleave c \<Longrightarrow> run_threads xs c = Some (Inr c') \<Longrightarrow>
   reachable (\<lambda>c. c = start) interleave c'"
  by (induction xs c rule: run_threads.induct)
    (auto simp del: thread_step.simps split: option.splits sum.splits intro: reachable_step interleave.intros)

text \<open>The state after a schedule from the start, if the schedule is possible and defined.\<close>

definition after :: "action list \<Rightarrow> concurrent" where
  "after xs = projr (the (run_threads xs start))"

lemma after_reachable:
  assumes "case run_threads xs start of Some (Inr c) \<Rightarrow> True | _ \<Rightarrow> False"
  shows "reachable (\<lambda>c. c = start) interleave (after xs)"
proof -
  from assms obtain c where "run_threads xs start = Some (Inr c)"
    by (auto split: option.splits sum.splits)
  with run_threads_reachable [OF reachable_init [of "\<lambda>c. c = start", OF refl]] show ?thesis
    by (simp add: after_def del: run_threads.simps)
qed

section \<open>Where an invalid iterator comes from\<close>

text \<open>
  What a step can do to the counters an iterator is checked against: only an unregistration counts
  an erasure of a key, and only an insertion that rehashes counts a rehash.
\<close>

lemma erased_step:
  assumes "conc_ok c" and "thread_step x c = Some (Inr c')" and "erased c' n \<noteq> erased c n"
  shows "invalidates n x c"
proof (cases x)
  case (Begin_register t m acts i)
  with assms(2,3) show ?thesis by (auto split: if_splits option.splits)
next
  case (Finish_register t grow)
  with assms(2) have "thread_step (Finish_register t grow) c = Some (Inr c')" by simp
  then show ?thesis
    by (cases rule: finish_cases) (use assms(3) in \<open>simp_all add: erasures_none known_keeps\<close>)
next
  case (Do_unregister m)
  from assms(1) have ok: "sched_ok (shared c)" by (simp add: conc_ok_def)
  from Do_unregister assms(2,3) have "m = n \<and> lookup_service (shared c) n \<noteq> None"
    by (auto simp: erasures_def lookup_unregister [OF ok] split: if_splits)
  with Do_unregister show ?thesis by simp
next
  case (Do_report m lCurrent lLast)
  with assms(2,3) show ?thesis by (auto simp: erasures_none known_keeps)
next
  case (Do_failure m)
  with assms known_after_failure [of "shared c" m] show ?thesis
    by (auto simp: bind_result_Inr_iff conc_ok_def erasures_none)
qed

lemma rehashed_step:
  assumes "thread_step x c = Some (Inr c')" and "rehashed c' \<noteq> rehashed c"
  shows "invalidates n x c"
proof (cases x)
  case (Finish_register t grow)
  with assms(1) have "thread_step (Finish_register t grow) c = Some (Inr c')" by simp
  then show ?thesis
    by (cases rule: finish_cases) (use assms(2) Finish_register in \<open>auto simp: insertions_def split: if_splits\<close>)
qed (use assms in \<open>auto simp: bind_result_Inr_iff split: if_splits option.splits\<close>)

lemma other_threads_step:
  assumes "thread_step x c = Some (Inr c')" and "acting x \<noteq> Some t"
  shows "pcs c' t = pcs c t"
proof (cases x)
  case (Begin_register u m acts i)
  with assms show ?thesis by (cases "lookup_service (shared c) m") (auto split: if_splits)
next
  case (Finish_register u grow)
  with assms(1) have "thread_step (Finish_register u grow) c = Some (Inr c')" by simp
  then show ?thesis by (cases rule: finish_cases) (use assms(2) Finish_register in auto)
qed (use assms(1) in \<open>auto simp: bind_result_Inr_iff\<close>)

lemma iterator_step:
  assumes "thread_step x c = Some (Inr c')" and "pcs c' t = Have_iterator n g r"
  obtains (same) "pcs c t = Have_iterator n g r" "acting x \<noteq> Some t"
    | (found) acts i where "x = Begin_register t n acts i" "g = erased c' n" "r = rehashed c'"
proof (cases "acting x = Some t")
  case False
  with same other_threads_step [OF assms(1) False] assms(2) show thesis by simp
next
  case True
  then show thesis
  proof (cases x)
    case (Begin_register u m acts i)
    with True assms show thesis
      by (cases "lookup_service (shared c) m") (auto intro: found split: if_splits)
  next
    case (Finish_register u grow)
    with assms(1) have "thread_step (Finish_register u grow) c = Some (Inr c')" by simp
    then show thesis by (cases rule: finish_cases) (use True assms(2) Finish_register in auto)
  qed auto
qed

text \<open>The schedule that led to an iterator: its lookup, and what has invalidated it since.\<close>

definition justified :: "action list \<Rightarrow> concurrent \<Rightarrow> nat \<Rightarrow> string \<Rightarrow> nat \<Rightarrow> nat \<Rightarrow> bool" where
  "justified xs c t n g r \<longleftrightarrow>
     (\<exists>ys acts i zs. xs = ys @ Begin_register t n acts i # zs \<and> list_all (\<lambda>y. acting y \<noteq> Some t) zs
        \<and> (erased c n \<noteq> g \<or> rehashed c \<noteq> r \<longrightarrow>
            (\<exists>zs1 y zs2 c1. zs = zs1 @ y # zs2 \<and> run_threads (ys @ Begin_register t n acts i # zs1) start = Some (Inr c1)
               \<and> invalidates n y c1)))"

lemma justified_found: "g = erased c n \<Longrightarrow> r = rehashed c \<Longrightarrow> justified (xs @ [Begin_register t n acts i]) c t n g r"
  unfolding justified_def by (intro exI [of _ xs] exI [of _ acts] exI [of _ i] exI [of _ "[]"]) simp

lemma justified_extend:
  assumes "justified xs c t n g r" and "acting x \<noteq> Some t" and "run_threads xs start = Some (Inr c)"
    and "erased c' n \<noteq> erased c n \<or> rehashed c' \<noteq> rehashed c \<Longrightarrow> invalidates n x c"
  shows "justified (xs @ [x]) c' t n g r"
proof -
  from assms(1) obtain ys acts i zs where xs: "xs = ys @ Begin_register t n acts i # zs"
      "list_all (\<lambda>y. acting y \<noteq> Some t) zs"
      and old: "erased c n \<noteq> g \<or> rehashed c \<noteq> r \<longrightarrow>
        (\<exists>zs1 y zs2 c1. zs = zs1 @ y # zs2 \<and> run_threads (ys @ Begin_register t n acts i # zs1) start = Some (Inr c1)
           \<and> invalidates n y c1)"
    unfolding justified_def by blast
  have "\<exists>zs1 y zs2 c1. zs @ [x] = zs1 @ y # zs2 \<and> run_threads (ys @ Begin_register t n acts i # zs1) start = Some (Inr c1)
      \<and> invalidates n y c1" if "erased c' n \<noteq> g \<or> rehashed c' \<noteq> r"
  proof (cases "erased c' n \<noteq> erased c n \<or> rehashed c' \<noteq> rehashed c")
    case True
    with assms(3,4) xs(1) show ?thesis by blast
  next
    case False
    with that old obtain zs1 y zs2 c1 where "zs = zs1 @ y # zs2"
        "run_threads (ys @ Begin_register t n acts i # zs1) start = Some (Inr c1)" "invalidates n y c1"
      by auto
    then show ?thesis by (intro exI [of _ zs1] exI [of _ y] exI [of _ "zs2 @ [x]"] exI [of _ c1]) simp
  qed
  with xs assms(2) show ?thesis
    unfolding justified_def
    by (intro exI [of _ ys] exI [of _ acts] exI [of _ i] exI [of _ "zs @ [x]"]) (simp del: run_threads.simps)
qed

lemma run_threads_snoc:
  "run_threads (xs @ [x]) c = Some (Inr c'') \<longleftrightarrow>
     (\<exists>c'. run_threads xs c = Some (Inr c') \<and> thread_step x c' = Some (Inr c''))"
  by (induction xs arbitrary: c) (auto simp del: thread_step.simps split: option.splits sum.splits)

lemma iterators_justified:
  "run_threads xs start = Some (Inr c) \<Longrightarrow> pcs c t = Have_iterator n g r \<Longrightarrow> justified xs c t n g r"
proof (induction xs arbitrary: c n g r rule: rev_induct)
  case Nil
  then show ?case by (auto simp: start_def)
next
  case (snoc x xs)
  then obtain c0 where run: "run_threads xs start = Some (Inr c0)" and step: "thread_step x c0 = Some (Inr c)"
    by (auto simp: run_threads_snoc simp del: thread_step.simps)
  have ok: "conc_ok c0"
    by (rule threads.reachable_inv [OF run_threads_reachable [OF reachable_init [of "\<lambda>c. c = start", OF refl] run]])
  from step snoc.prems(2) show ?case
  proof (cases rule: iterator_step)
    case same
    from snoc.IH [OF run same(1)] same(2) run show ?thesis
      by (rule justified_extend) (use erased_step [OF ok step] rehashed_step [OF step] in blast)
  qed (auto intro: justified_found)
qed

section \<open>Properties\<close>

text \<open>
  An undisturbed registration is the atomic operation. If no other thread runs between the
  two halves, an accepted registration leaves the registry and gives the answer that
  \<^verbatim>\<open>onRegisterService\<close> has in the atomic model; a refused one is decided by the first half alone
  and changes nothing.
\<close>

lemma undisturbed_registration_is_atomic:
  assumes "pcs c t = Idle"
  shows "if fst (onRegisterService n acts i p (shared c))
    then \<exists>c'. run_threads [Begin_register t n acts i, Finish_register t grow] c = Some (Inr c')
      \<and> shared c' = snd (onRegisterService n acts i p (shared c)) \<and> replied c' t = Some True
      \<and> pcs c' = pcs c \<and> erased c' = erased c
    else run_threads [Begin_register t n acts i] c = Some (Inr (c\<lparr>replied := (replied c)(t := Some False)\<rparr>))
      \<and> run_threads [Begin_register t n acts i, Finish_register t grow] c = None"
  using assms
  by (auto simp: onRegisterService_def fun_upd_idem erasures_none known_keeps split: option.split)

text \<open>
  C18: every dangling iterator can be traced back. If a schedule from the start runs without error
  and its next step uses a dangling iterator, then that step is the second half of a registration,
  the schedule contains its first half, and between the two (the thread itself doing nothing) there
  is a step that unregistered that very service, which was registered then, or that inserted a
  service not yet known and rehashed the map. Crashes, reports, re-registrations and insertions
  that do not rehash never invalidate an iterator.
\<close>

theorem dangling_traced_back:
  assumes "run_threads xs start = Some (Inr c)" and "thread_step x c = Some (Inl DanglingIterator)"
  shows "\<exists>t grow ys n acts i zs. x = Finish_register t grow \<and> xs = ys @ Begin_register t n acts i # zs
    \<and> list_all (\<lambda>y. acting y \<noteq> Some t) zs
    \<and> (\<exists>zs1 y zs2 c1. zs = zs1 @ y # zs2 \<and> run_threads (ys @ Begin_register t n acts i # zs1) start = Some (Inr c1)
        \<and> invalidates n y c1)"
proof (cases x)
  case (Finish_register t grow)
  with assms(2) have "thread_step (Finish_register t grow) c = Some (Inl DanglingIterator)" by simp
  then show ?thesis
  proof (cases rule: finish_cases)
    case (dangling n g k)
    from iterators_justified [OF assms(1) dangling(1)] dangling(2) Finish_register show ?thesis
      unfolding justified_def by blast
  qed simp_all
next
  case (Do_failure n)
  with assms(2) have "onServiceFailure n (shared c) = Inl DanglingIterator"
    by (cases "onServiceFailure n (shared c)") auto
  then show ?thesis
    by (auto simp: onServiceFailure_def fail_info_def vec_at_def bind_result_def Let_def
        split: option.splits sum.splits if_splits)
qed (use assms(2) in \<open>auto split: if_splits\<close>)

theorem dangling_traced_back_witness:
  "\<exists>t grow ys n acts i zs. Finish_register 8 False = Finish_register t grow
    \<and> [Begin_register 7 ''AppA'' [RESTART] 5, Finish_register 7 True, Begin_register 8 ''AppA'' [STOP] 5,
       Do_failure ''AppA'', Do_unregister ''AppA''] = ys @ Begin_register t n acts i # zs
    \<and> list_all (\<lambda>y. acting y \<noteq> Some t) zs
    \<and> (\<exists>zs1 y zs2 c1. zs = zs1 @ y # zs2 \<and> run_threads (ys @ Begin_register t n acts i # zs1) start = Some (Inr c1)
        \<and> invalidates n y c1)"
proof -
  let ?xs = "[Begin_register 7 ''AppA'' [RESTART] 5, Finish_register 7 True, Begin_register 8 ''AppA'' [STOP] 5,
       Do_failure ''AppA'', Do_unregister ''AppA'']"
  have "case run_threads ?xs start of Some (Inr c) \<Rightarrow> True | _ \<Rightarrow> False" by code_simp
  then obtain c where run: "run_threads ?xs start = Some (Inr c)"
    by (auto split: option.splits sum.splits simp del: thread_step.simps run_threads.simps)
  have "case thread_step (Finish_register 8 False) (after ?xs) of Some (Inl e) \<Rightarrow> e = DanglingIterator | _ \<Rightarrow> False"
    by code_simp
  moreover have "after ?xs = c" using run by (simp add: after_def del: run_threads.simps)
  ultimately have "thread_step (Finish_register 8 False) c = Some (Inl DanglingIterator)"
    by (simp del: thread_step.simps run_threads.simps split: option.splits sum.splits)
  with run show ?thesis by (rule dangling_traced_back)
qed

text \<open>
  C17: and the race with unregistration is real. From any state in which a service is registered and
  a thread is idle, the schedule that unregisters the service between the two halves of the thread's
  re-registration ends in the use of a dangling iterator.
\<close>

theorem unregister_race_dangles:
  assumes "reachable (\<lambda>c. c = start) interleave c" and "lookup_service (shared c) n \<noteq> None" and "pcs c t = Idle"
  shows "run_threads [Begin_register t n acts i, Do_unregister n, Finish_register t grow] c = Some (Inl DanglingIterator)"
proof -
  have "conc_ok c" using assms(1) by (rule threads.reachable_inv)
  then have "sched_ok (shared c)" by (simp add: conc_ok_def)
  with assms(2,3) show ?thesis by (auto simp: erasures_def lookup_unregister)
qed

theorem unregister_race_dangles_witness:
  "run_threads [Begin_register 8 ''AppA'' [STOP] 5, Do_unregister ''AppA'', Finish_register 8 False]
     (after [Begin_register 7 ''AppA'' [RESTART] 5, Finish_register 7 True]) = Some (Inl DanglingIterator)"
proof (rule unregister_race_dangles)
  let ?c = "after [Begin_register 7 ''AppA'' [RESTART] 5, Finish_register 7 True]"
  show "reachable (\<lambda>c. c = start) interleave ?c" by (rule after_reachable) code_simp
  show "lookup_service (shared ?c) ''AppA'' \<noteq> None" "pcs ?c 8 = Idle" by code_simp+
qed

text \<open>
  C19: so is the race with another service's first registration. If the insertion of the other
  service makes the map rehash between the two halves of a re-registration, the write through the
  iterator found before is undefined, although nobody touched the re-registered service.
\<close>

theorem rehash_race_dangles:
  assumes "lookup_service (shared c) n \<noteq> None" and "lookup_service (shared c) m = None" and "m \<in> catalogue_names"
    and "t \<noteq> u" and "pcs c t = Idle" and "pcs c u = Idle"
  shows "run_threads [Begin_register t n acts i, Begin_register u m acts' i', Finish_register u True, Finish_register t grow] c
    = Some (Inl DanglingIterator)"
  using assms by (auto simp: isNameValid_iff insertions_def)

theorem rehash_race_dangles_witness:
  "run_threads [Begin_register 8 ''AppA'' [STOP] 5, Begin_register 9 ''AppB'' [] 0, Finish_register 9 True, Finish_register 8 False]
     (after [Begin_register 7 ''AppA'' [RESTART] 5, Finish_register 7 True]) = Some (Inl DanglingIterator)"
proof (rule rehash_race_dangles)
  let ?c = "after [Begin_register 7 ''AppA'' [RESTART] 5, Finish_register 7 True]"
  show "lookup_service (shared ?c) ''AppA'' \<noteq> None" "lookup_service (shared ?c) ''AppB'' = None"
    "pcs ?c 8 = Idle" "pcs ?c 9 = Idle" by code_simp+
qed (simp_all add: catalogue_names_def g_MapServiceNames_def)

text \<open>
  C31: two clients that register the same new name at the same time are both told \<^verbatim>\<open>OK\<close>; the policy
  of the one that emplaces first is kept. If the service crashes before the second one finishes,
  the second client's success leaves the service offline: unlike a later re-registration, its
  \<^verbatim>\<open>emplace\<close> has no effect.
\<close>

theorem concurrent_first_registrations:
  assumes "sched_safe (shared c)" and "lookup_service (shared c) n = None" and "n \<in> catalogue_names"
    and "t \<noteq> u" and "pcs c t = Idle" and "pcs c u = Idle" and "length a1 \<le> 128"
  shows "\<exists>c' info. run_threads [Begin_register t n a1 i1, Begin_register u n a2 i2, Finish_register t grow,
        Do_failure n, Finish_register u grow'] c = Some (Inr c')
    \<and> replied c' t = Some True \<and> replied c' u = Some True
    \<and> lookup_service (shared c') n = Some info \<and> \<not> isOnline info
    \<and> recoveryActions info = (if a1 = [] then [RESTART, RESTART, STOP, DISABLE] else a1)"
proof -
  let ?st = "emplace_service n a1 i1 (shared c)"
  have safe: "sched_safe ?st" using assms(1,3,7) by (simp add: emplace_keeps)
  have look: "lookup_service ?st n = Some (new_service_info n a1 i1)"
    using assms(2) by (simp add: um.lookup_emplace)
  obtain st' where st': "onServiceFailure n ?st = Inr st'"
      "lookup_service st' = (lookup_service ?st)(n := map_option failed_info (lookup_service ?st n))"
    using safe by (blast elim: failure_returns)
  then have look': "lookup_service st' n = Some (failed_info (new_service_info n a1 i1))" using look by simp
  then have "emplace_service n a2 i2 st' = st'" by (intro emplace_present) simp
  with assms st'(1) look' show ?thesis
    by (simp add: isNameValid_iff failed_info_def new_service_info_eq effective_policy_def Let_def)
qed

theorem concurrent_first_registrations_witness:
  "\<exists>c' info. run_threads [Begin_register 1 ''AppA'' [STOP] 5, Begin_register 2 ''AppA'' [RESTART] 9, Finish_register 1 True,
        Do_failure ''AppA'', Finish_register 2 False] start = Some (Inr c')
    \<and> replied c' 1 = Some True \<and> replied c' 2 = Some True
    \<and> lookup_service (shared c') ''AppA'' = Some info \<and> \<not> isOnline info
    \<and> recoveryActions info = [STOP]"
  using concurrent_first_registrations [of start "''AppA''" 1 2 "[STOP]" 5 "[RESTART]" 9 True False]
  by (simp add: start_def init_scheduler_safe catalogue_names_def g_MapServiceNames_def
      del: run_threads.simps thread_step.simps)

end
