(* ===== verification/Locking.thy ===== *)
theory Locking
  imports Interleaving
begin

text \<open>
  The scheduler's threads at the granularity of \<^verbatim>\<open>m_MutxServiceInfo\<close>: a call waits for the mutex,
  holds it while its section runs and releases it; \<^verbatim>\<open>onRegisterService\<close> first reads the map
  without it. That read while another thread inserts or erases is a data race (the section counts as
  writing from the moment it is entered). Field writes inside a record do not conflict with it (the
  lookup reads keys and links only). This machine refines the
  one of \<open>Interleaving\<close>; and under the hypothesis that a single thread dispatches all calls it
  refines the atomic operations of \<open>Scheduler\<close>.
\<close>

section \<open>The machine\<close>

text \<open>The critical sections, with the arguments they run on.\<close>

datatype critical_section =
    Emplace_section string "RecoveryState list" i32   \<comment> \<open>\<^verbatim>\<open>onRegisterService\<close>, new name\<close>
  | Online_section string nat nat                      \<comment> \<open>\<^verbatim>\<open>onRegisterService\<close>, through the iterator\<close>
  | Unregister_section string
  | Report_section string RecoveryState RecoveryState
  | Failure_section string
  | Query_section string

datatype lpc =
    Outside
  | Before_lookup string "RecoveryState list" i32
  | Waiting critical_section
  | Inside critical_section

record locking =
  l_shared :: CRecoveryScheduler
  l_erased :: "string \<Rightarrow> nat"
  l_rehashed :: nat
  l_pcs :: "nat \<Rightarrow> lpc"
  l_owner :: "nat option"
  l_replied :: "nat \<Rightarrow> bool option"
  l_returned :: "nat \<Rightarrow> bool option"   \<comment> \<open>what \<^verbatim>\<open>onUnregisterService\<close> and \<^verbatim>\<open>onReportServiceState\<close> return\<close>
  l_seen :: "nat \<Rightarrow> SServiceSnapshot option"

datatype lock_action =
    Call_register nat string "RecoveryState list" i32
  | Call_locked nat critical_section
  | Lookup nat
  | Acquire nat
  | Release nat bool

text \<open>The sections that link a node into the map or out of it, in the given registry.\<close>

fun writes_map :: "CRecoveryScheduler \<Rightarrow> critical_section \<Rightarrow> bool" where
  "writes_map st (Emplace_section n acts i) = (lookup_service st n = None)"
| "writes_map st (Unregister_section n) = fst (onUnregisterService n st)"
| "writes_map st _ = False"

text \<open>The sections that are entered directly, without a lookup before.\<close>

fun direct :: "critical_section \<Rightarrow> bool" where
  "direct (Emplace_section n acts i) = False"
| "direct (Online_section n g r) = False"
| "direct _ = True"

definition map_being_written :: "locking \<Rightarrow> bool" where
  "map_being_written c =
     (case l_owner c of
        None \<Rightarrow> False
      | Some u \<Rightarrow> (case l_pcs c u of Inside cs \<Rightarrow> writes_map (l_shared c) cs | _ \<Rightarrow> False))"

definition l_commit :: "CRecoveryScheduler \<Rightarrow> locking \<Rightarrow> locking" where
  "l_commit st c = c\<lparr>l_shared := st, l_erased := erasures (l_shared c) st (l_erased c)\<rparr>"

text \<open>What a section does while the mutex is held; the flag: an insertion rehashes.\<close>

fun section_body :: "nat \<Rightarrow> bool \<Rightarrow> critical_section \<Rightarrow> locking \<Rightarrow> locking result" where
  "section_body t grow (Emplace_section n acts i) c =
     Inr (l_commit (emplace_service n acts i (l_shared c))
           (c\<lparr>l_rehashed := l_rehashed c + (if grow then insertions (l_shared c) n else 0),
              l_replied := (l_replied c)(t := Some True)\<rparr>))"
| "section_body t grow (Online_section n g r) c =
     (if l_erased c n = g \<and> l_rehashed c = r
      then Inr (l_commit (set_online n (l_shared c)) (c\<lparr>l_replied := (l_replied c)(t := Some True)\<rparr>))
      else Inl DanglingIterator)"
| "section_body t grow (Unregister_section n) c =
     (let (ok, st) = onUnregisterService n (l_shared c)
      in Inr (l_commit st (c\<lparr>l_returned := (l_returned c)(t := Some ok)\<rparr>)))"
| "section_body t grow (Report_section n lCurrent lLast) c =
     (let (ok, st) = onReportServiceState n lCurrent lLast (l_shared c)
      in Inr (l_commit st (c\<lparr>l_returned := (l_returned c)(t := Some ok)\<rparr>)))"
| "section_body t grow (Failure_section n) c =
     bind_result (onServiceFailure n (l_shared c)) (\<lambda>st. Inr (l_commit st c))"
| "section_body t grow (Query_section n) c =
     bind_result (getServiceState n (l_shared c)) (\<lambda>snap. Inr (c\<lparr>l_seen := (l_seen c)(t := Some snap)\<rparr>))"

text \<open>One step; \<open>None\<close>: not enabled.\<close>

fun lock_step :: "lock_action \<Rightarrow> locking \<Rightarrow> locking result option" where
  "lock_step (Call_register t n acts i) c =
     (case l_pcs c t of
        Outside \<Rightarrow> Some (Inr (c\<lparr>l_pcs := (l_pcs c)(t := Before_lookup n acts i)\<rparr>))
      | _ \<Rightarrow> None)"
| "lock_step (Call_locked t cs) c =
     (case l_pcs c t of
        Outside \<Rightarrow> if direct cs then Some (Inr (c\<lparr>l_pcs := (l_pcs c)(t := Waiting cs)\<rparr>)) else None
      | _ \<Rightarrow> None)"
| "lock_step (Lookup t) c =
     (case l_pcs c t of
        Before_lookup n acts i \<Rightarrow>
          Some (if map_being_written c then Inl DataRace
                else Inr (case lookup_service (l_shared c) n of
                  None \<Rightarrow>
                    if isNameValid n
                    then c\<lparr>l_pcs := (l_pcs c)(t := Waiting (Emplace_section n acts i)), l_replied := (l_replied c)(t := None)\<rparr>
                    else c\<lparr>l_pcs := (l_pcs c)(t := Outside), l_replied := (l_replied c)(t := Some False)\<rparr>
                | Some _ \<Rightarrow>
                    c\<lparr>l_pcs := (l_pcs c)(t := Waiting (Online_section n (l_erased c n) (l_rehashed c))),
                      l_replied := (l_replied c)(t := None)\<rparr>))
      | _ \<Rightarrow> None)"
| "lock_step (Acquire t) c =
     (case (l_pcs c t, l_owner c) of
        (Waiting cs, None) \<Rightarrow> Some (Inr (c\<lparr>l_pcs := (l_pcs c)(t := Inside cs), l_owner := Some t\<rparr>))
      | _ \<Rightarrow> None)"
| "lock_step (Release t grow) c =
     (case l_pcs c t of
        Inside cs \<Rightarrow>
          Some (bind_result (section_body t grow cs c)
                  (\<lambda>c'. Inr (c'\<lparr>l_pcs := (l_pcs c')(t := Outside), l_owner := None\<rparr>)))
      | _ \<Rightarrow> None)"

definition lock_start :: locking where
  "lock_start =
     \<lparr>l_shared = init_scheduler, l_erased = (\<lambda>_. 0), l_rehashed = 0, l_pcs = (\<lambda>_. Outside), l_owner = None,
      l_replied = (\<lambda>_. None), l_returned = (\<lambda>_. None), l_seen = (\<lambda>_. None)\<rparr>"

fun run_locking :: "lock_action list \<Rightarrow> locking \<Rightarrow> locking result option" where
  "run_locking [] c = Some (Inr c)"
| "run_locking (x # xs) c =
     (case lock_step x c of
        None \<Rightarrow> None
      | Some (Inl e) \<Rightarrow> Some (Inl e)
      | Some (Inr c') \<Rightarrow> run_locking xs c')"

inductive locked_step :: "locking \<Rightarrow> lock_action \<Rightarrow> locking \<Rightarrow> bool" where
  "lock_step x c = Some (Inr c') \<Longrightarrow> locked_step c x c'"

inductive_cases locked_stepE [elim!]: "locked_step c x c'"

section \<open>Mutual exclusion\<close>

fun is_inside :: "lpc \<Rightarrow> bool" where
  "is_inside (Inside cs) = True"
| "is_inside _ = False"

definition mutex_ok :: "locking \<Rightarrow> bool" where
  "mutex_ok c \<longleftrightarrow> (\<forall>t. is_inside (l_pcs c t) \<longleftrightarrow> l_owner c = Some t)"

lemma mutex_move:
  assumes "mutex_ok c" and "l_pcs c t = p" "\<not> is_inside p" "\<not> is_inside q"
    and "l_pcs c' = (l_pcs c)(t := q)" "l_owner c' = l_owner c"
  shows "mutex_ok c'"
  using assms unfolding mutex_ok_def by (metis fun_upd_apply)

lemma l_commit_fields [simp]:
  "l_shared (l_commit st c) = st" "l_erased (l_commit st c) = erasures (l_shared c) st (l_erased c)"
  "l_rehashed (l_commit st c) = l_rehashed c" "l_pcs (l_commit st c) = l_pcs c" "l_owner (l_commit st c) = l_owner c"
  "l_replied (l_commit st c) = l_replied c" "l_returned (l_commit st c) = l_returned c" "l_seen (l_commit st c) = l_seen c"
  by (simp_all add: l_commit_def)

lemma section_body_keeps:
  "section_body t grow cs c = Inr c' \<Longrightarrow> l_pcs c' = l_pcs c \<and> l_owner c' = l_owner c"
  by (cases cs) (auto simp: bind_result_Inr_iff split: if_splits prod.splits)

lemma release_cases:
  assumes "lock_step (Release t grow) c = Some r"
  obtains (undefined) cs e where "l_pcs c t = Inside cs" "section_body t grow cs c = Inl e" "r = Inl e"
    | (finished) cs c1 where "l_pcs c t = Inside cs" "section_body t grow cs c = Inr c1"
        "r = Inr (c1\<lparr>l_pcs := (l_pcs c)(t := Outside), l_owner := None\<rparr>)"
proof (cases "l_pcs c t")
  case (Inside cs)
  show thesis
  proof (cases "section_body t grow cs c")
    case (Inl e)
    with Inside assms show thesis by (intro undefined [of cs e]) auto
  next
    case (Inr c1)
    with Inside assms section_body_keeps [OF Inr] show thesis by (intro finished [of cs c1]) auto
  qed
qed (use assms in auto)

lemma mutex_step:
  assumes "mutex_ok c" and "lock_step x c = Some (Inr c')"
  shows "mutex_ok c'"
proof (cases x)
  case (Acquire t)
  with assms show ?thesis by (auto simp: mutex_ok_def split: lpc.splits option.splits if_splits)
next
  case (Release t grow)
  with assms(2) have "lock_step (Release t grow) c = Some (Inr c')" by simp
  then show ?thesis
  proof (cases rule: release_cases)
    case (finished cs c1)
    then have "l_owner c = Some t" using assms(1) unfolding mutex_ok_def by (metis is_inside.simps(1))
    with finished assms(1) show ?thesis by (auto simp: mutex_ok_def)
  qed simp
next
  case (Call_register t n acts i)
  with assms(2) show ?thesis by (auto intro!: mutex_move [OF assms(1), of t] split: lpc.splits)
next
  case (Call_locked t cs)
  with assms(2) show ?thesis by (auto intro!: mutex_move [OF assms(1), of t] split: lpc.splits if_splits)
next
  case (Lookup t)
  with assms(2) show ?thesis
    by (auto intro!: mutex_move [OF assms(1), of t] split: lpc.splits if_splits option.splits)
qed

section \<open>Refinement of the interleaved halves\<close>

fun coarse_pc :: "lpc \<Rightarrow> pc" where
  "coarse_pc (Waiting (Emplace_section n acts i)) = Must_emplace n acts i"
| "coarse_pc (Inside (Emplace_section n acts i)) = Must_emplace n acts i"
| "coarse_pc (Waiting (Online_section n g r)) = Have_iterator n g r"
| "coarse_pc (Inside (Online_section n g r)) = Have_iterator n g r"
| "coarse_pc _ = Idle"

definition coarse :: "locking \<Rightarrow> concurrent" where
  "coarse c = \<lparr>shared = l_shared c, erased = l_erased c, rehashed = l_rehashed c, pcs = coarse_pc \<circ> l_pcs c, replied = l_replied c\<rparr>"

text \<open>The action of the coarser machine a section amounts to; a query is none.\<close>

fun coarse_action :: "nat \<Rightarrow> bool \<Rightarrow> critical_section \<Rightarrow> action option" where
  "coarse_action t grow (Emplace_section n acts i) = Some (Finish_register t grow)"
| "coarse_action t grow (Online_section n g r) = Some (Finish_register t grow)"
| "coarse_action t grow (Unregister_section n) = Some (Do_unregister n)"
| "coarse_action t grow (Report_section n lCurrent lLast) = Some (Do_report n lCurrent lLast)"
| "coarse_action t grow (Failure_section n) = Some (Do_failure n)"
| "coarse_action t grow (Query_section n) = None"

lemma coarse_fields [simp]:
  "shared (coarse c) = l_shared c" "erased (coarse c) = l_erased c" "rehashed (coarse c) = l_rehashed c" "replied (coarse c) = l_replied c"
  "pcs (coarse c) t = coarse_pc (l_pcs c t)"
  by (simp_all add: coarse_def)

lemma coarse_move:
  assumes "l_shared c' = l_shared c" "l_erased c' = l_erased c" "l_rehashed c' = l_rehashed c" "l_replied c' = l_replied c"
    and "l_pcs c' = (l_pcs c)(t := q)" "coarse_pc q = coarse_pc (l_pcs c t)"
  shows "coarse c' = coarse c"
  using assms by (simp add: coarse_def fun_upd_comp fun_upd_idem)

lemma coarse_lookup:
  assumes "l_pcs c t = Before_lookup n acts i" and "lock_step (Lookup t) c = Some (Inr c')"
  shows "thread_step (Begin_register t n acts i) (coarse c) = Some (Inr (coarse c'))"
  using assms
  by (auto simp: coarse_def fun_upd_comp fun_upd_idem split: option.splits if_splits)

text \<open>What a section does, seen through the abstraction: results and errors alike.\<close>

lemma coarse_release:
  assumes "l_pcs c t = Inside cs" and "coarse_action t grow cs = Some x"
  shows "thread_step x (coarse c) =
    map_option (map_sum id coarse) (lock_step (Release t grow) c)"
proof (cases cs)
  case (Unregister_section n)
  with assms show ?thesis
    by (cases "onUnregisterService n (l_shared c)") (auto simp: coarse_def commit_def l_commit_def fun_upd_comp fun_upd_idem)
next
  case (Failure_section n)
  with assms show ?thesis
    by (cases "onServiceFailure n (l_shared c)") (auto simp: coarse_def commit_def l_commit_def fun_upd_comp fun_upd_idem)
next
  case (Report_section n lCurrent lLast)
  with assms show ?thesis
    by (cases "onReportServiceState n lCurrent lLast (l_shared c)")
      (auto simp: coarse_def commit_def l_commit_def fun_upd_comp fun_upd_idem)
qed (use assms in \<open>auto simp: coarse_def commit_def l_commit_def fun_upd_comp fun_upd_idem\<close>)

lemma coarse_query:
  assumes "l_pcs c t = Inside (Query_section n)" and "lock_step (Release t grow) c = Some (Inr c')"
  shows "coarse c' = coarse c"
  using assms by (auto simp: bind_result_Inr_iff coarse_def fun_upd_comp fun_upd_idem)

lemma coarse_step_or_none:
  assumes "lock_step x c = Some (Inr c')"
  shows "coarse c' = coarse c \<or> (\<exists>k. interleave (coarse c) k (coarse c'))"
proof (cases x)
  case (Lookup t)
  with assms have step: "lock_step (Lookup t) c = Some (Inr c')" by simp
  then obtain n acts i where "l_pcs c t = Before_lookup n acts i" by (auto split: lpc.splits)
  from interleave.intros [OF coarse_lookup [OF this step]] show ?thesis by (intro disjI2 exI)
next
  case (Release t grow)
  with assms have rel: "lock_step (Release t grow) c = Some (Inr c')" by simp
  then obtain cs where cs: "l_pcs c t = Inside cs" by (cases rule: release_cases) auto
  show ?thesis
  proof (cases "coarse_action t grow cs")
    case None
    then obtain n where "cs = Query_section n" by (cases cs) auto
    with coarse_query [OF _ rel] cs show ?thesis by blast
  next
    case (Some k)
    have "thread_step k (coarse c) = Some (Inr (coarse c'))"
      unfolding coarse_release [OF cs Some] rel by simp
    from interleave.intros [OF this] show ?thesis by (intro disjI2 exI)
  qed
next
  case (Acquire t)
  with assms show ?thesis
    by (auto intro!: disjI1 coarse_move [of _ _ t] split: lpc.splits option.splits)
      (metis coarse_pc.simps critical_section.exhaust)+
next
  case (Call_register t n acts i)
  with assms show ?thesis by (auto intro!: disjI1 coarse_move [of _ _ t] split: lpc.splits)
next
  case (Call_locked t cs)
  with assms show ?thesis
    by (cases cs) (auto intro!: disjI1 coarse_move [of _ _ t] split: lpc.splits if_splits)
qed

lemma mutex_start: "mutex_ok lock_start"
  by (simp add: mutex_ok_def lock_start_def)

lemma coarse_start: "coarse lock_start = start"
  by (simp add: coarse_def lock_start_def start_def comp_def)

interpretation locks: stuttering_refinement "\<lambda>c. c = lock_start" locked_step mutex_ok
    "\<lambda>c. c = start" interleave coarse
  by unfold_locales (auto intro: mutex_start mutex_step simp: coarse_start dest: coarse_step_or_none)

section \<open>One dispatching thread\<close>

text \<open>Thread 0 delivers all calls that change the registry; the others (the console) only query.\<close>

fun is_query :: "critical_section \<Rightarrow> bool" where
  "is_query (Query_section n) = True"
| "is_query _ = False"

fun one_dispatcher :: "lock_action \<Rightarrow> bool" where
  "one_dispatcher (Call_register t n acts i) = (t = 0 \<and> length acts \<le> 128)"
| "one_dispatcher (Call_locked t cs) = (t = 0 \<or> is_query cs)"
| "one_dispatcher _ = True"

inductive dispatched_step :: "locking \<Rightarrow> lock_action \<Rightarrow> locking \<Rightarrow> bool" where
  "one_dispatcher x \<Longrightarrow> lock_step x c = Some (Inr c') \<Longrightarrow> dispatched_step c x c'"

inductive_cases dispatched_stepE [elim!]: "dispatched_step c x c'"

text \<open>A registry that a sequence of whole operations produces.\<close>

definition sequential :: "CRecoveryScheduler \<Rightarrow> bool" where
  "sequential st \<longleftrightarrow> (\<exists>xs rs. list_all bounded_op xs \<and> run_ops sched_exec xs init_scheduler = Inr (rs, st))"

fun observing :: "lpc \<Rightarrow> bool" where
  "observing Outside = True"
| "observing (Waiting cs) = is_query cs"
| "observing (Inside cs) = is_query cs"
| "observing _ = False"

fun section_ready :: "locking \<Rightarrow> critical_section \<Rightarrow> bool" where
  "section_ready c (Emplace_section n acts i) =
     (n \<in> catalogue_names \<and> lookup_service (l_shared c) n = None \<and> length acts \<le> 128)"
| "section_ready c (Online_section n g r) =
     (g = l_erased c n \<and> r = l_rehashed c \<and> lookup_service (l_shared c) n \<noteq> None)"
| "section_ready c _ = True"

fun dispatching :: "locking \<Rightarrow> lpc \<Rightarrow> bool" where
  "dispatching c Outside = True"
| "dispatching c (Before_lookup n acts i) = (length acts \<le> 128)"
| "dispatching c (Waiting cs) = section_ready c cs"
| "dispatching c (Inside cs) = section_ready c cs"

definition dispatch_ok :: "locking \<Rightarrow> bool" where
  "dispatch_ok c \<longleftrightarrow> mutex_ok c \<and> sequential (l_shared c) \<and> dispatching c (l_pcs c 0)
     \<and> (\<forall>t. t \<noteq> 0 \<longrightarrow> observing (l_pcs c t))"

lemma sequential_extend:
  assumes "sequential st" and "bounded_op x" and "sched_exec x st = Inr (r, st')"
  shows "sequential st'"
proof -
  obtain xs rs where "list_all bounded_op xs" "run_ops sched_exec xs init_scheduler = Inr (rs, st)"
    using assms(1) by (auto simp: sequential_def)
  with assms(2,3) have "list_all bounded_op (xs @ [x])"
      "run_ops sched_exec (xs @ [x]) init_scheduler = Inr (rs @ [r], st')"
    by (simp_all add: run_ops_append)
  then show ?thesis unfolding sequential_def by blast
qed

lemma sequential_safe: "sequential st \<Longrightarrow> sched_safe st"
  using sched.run_refines [OF sched_refines_init] sched_refines_safe by (fastforce simp: sequential_def)

lemma sequential_register:
  "sequential st \<Longrightarrow> length acts \<le> 128 \<Longrightarrow> sequential (snd (onRegisterService n acts i p st))"
  using sequential_extend [of st "Register n acts i p"] by (cases "onRegisterService n acts i p st") simp

lemma section_defined:
  assumes "sequential (l_shared c)" and "section_ready c cs"
  shows "\<exists>c'. section_body t grow cs c = Inr c' \<and> sequential (l_shared c')"
proof (cases cs)
  case (Emplace_section n acts i)
  with assms sequential_register [OF assms(1), of acts n i 0] show ?thesis
    by (auto simp: emplace_is_register [of n "l_shared c" acts i 0])
next
  case (Online_section n g r)
  with assms sequential_register [OF assms(1), of "[]" n 0 0] show ?thesis
    by (auto simp: set_online_is_register [of "l_shared c" n "[]" 0 0])
next
  case (Unregister_section n)
  with sequential_extend [OF assms(1), of "Unregister n"] show ?thesis
    by (cases "onUnregisterService n (l_shared c)") auto
next
  case (Report_section n lCurrent lLast)
  with sequential_extend [OF assms(1), of "Report n lCurrent lLast"] show ?thesis
    by (cases "onReportServiceState n lCurrent lLast (l_shared c)") auto
next
  case (Failure_section n)
  obtain st where "onServiceFailure n (l_shared c) = Inr st"
    using sequential_safe [OF assms(1)] by (blast elim: failure_returns)
  with Failure_section sequential_extend [OF assms(1), of "Failure n"] show ?thesis by auto
next
  case (Query_section n)
  with assms getServiceState_safe [OF sequential_safe [OF assms(1)], of n] show ?thesis by auto
qed

lemma not_being_written:
  assumes "dispatch_ok c" and "\<not> is_inside (l_pcs c 0)"
  shows "\<not> map_being_written c"
proof -
  have "\<not> writes_map (l_shared c) cs" if "l_pcs c u = Inside cs" for u cs
  proof -
    have "u \<noteq> 0" using assms(2) that by (cases "u = 0") auto
    then have "observing (l_pcs c u)" using assms(1) by (simp add: dispatch_ok_def)
    with that show ?thesis by (cases cs) auto
  qed
  then show ?thesis by (auto simp: map_being_written_def split: option.splits lpc.splits)
qed

lemma observing_inside: "observing (l_pcs c t) \<Longrightarrow> l_pcs c t = Inside cs \<Longrightarrow> \<exists>n. cs = Query_section n"
  by (cases cs) auto

lemma dispatch_ready:
  assumes "dispatch_ok c" and "l_pcs c t = Inside cs"
  shows "section_ready c cs"
proof (cases "t = 0")
  case True
  with assms show ?thesis by (simp add: dispatch_ok_def)
next
  case False
  with assms(1) have "observing (l_pcs c t)" by (simp add: dispatch_ok_def)
  from observing_inside [OF this assms(2)] show ?thesis by auto
qed

lemma dispatched_defined:
  assumes "dispatch_ok c" and "lock_step x c = Some r"
  shows "\<exists>c'. r = Inr c'"
proof (cases x)
  case (Lookup t)
  with assms(2) obtain n acts i where b: "l_pcs c t = Before_lookup n acts i" by (auto split: lpc.splits)
  have "t = 0"
  proof (rule ccontr)
    assume "t \<noteq> 0"
    then have "observing (l_pcs c t)" using assms(1) by (simp add: dispatch_ok_def)
    with b show False by simp
  qed
  with b not_being_written [OF assms(1)] Lookup assms(2) show ?thesis by auto
next
  case (Release t grow)
  with assms(2) have "lock_step (Release t grow) c = Some r" by simp
  then show ?thesis
  proof (cases rule: release_cases)
    case (undefined cs e)
    have "sequential (l_shared c)" using assms(1) by (simp add: dispatch_ok_def)
    from section_defined [OF this dispatch_ready [OF assms(1) undefined(1)], of t grow] undefined(2) show ?thesis by simp
  qed auto
qed (use assms(2) in \<open>auto split: lpc.splits option.splits if_splits\<close>)

text \<open>How a step moves the threads: at most one of them, and only a dispatched call changes the tables.\<close>

lemma ready_same_tables:
  "l_shared c' = l_shared c \<Longrightarrow> l_erased c' = l_erased c \<Longrightarrow> l_rehashed c' = l_rehashed c \<Longrightarrow> section_ready c' cs = section_ready c cs"
  by (cases cs) simp_all

lemma dispatching_same_tables:
  assumes "l_shared c' = l_shared c" and "l_erased c' = l_erased c" and "l_rehashed c' = l_rehashed c"
  shows "dispatching c' p = dispatching c p"
  by (cases p) (simp_all add: ready_same_tables [OF assms])

lemma dispatch_move:
  assumes "dispatch_ok c" and "mutex_ok c'" and "l_shared c' = l_shared c" "l_erased c' = l_erased c" "l_rehashed c' = l_rehashed c"
    and "l_pcs c' = (l_pcs c)(t := q)" and "t = 0 \<Longrightarrow> dispatching c q" and "t \<noteq> 0 \<Longrightarrow> observing q"
  shows "dispatch_ok c'"
proof -
  have "dispatching c' (l_pcs c' 0)"
    using assms(1,6,7) by (cases "t = 0") (simp_all add: dispatching_same_tables [OF assms(3-5)] dispatch_ok_def)
  moreover have "observing (l_pcs c' u)" if "u \<noteq> 0" for u
    using assms(1,6,8) that by (cases "u = t") (simp_all add: dispatch_ok_def)
  ultimately show ?thesis using assms(1-3) by (simp add: dispatch_ok_def)
qed

lemma dispatched_keeps:
  assumes ok: "dispatch_ok c" and "one_dispatcher x" and step: "lock_step x c = Some (Inr c')"
  shows "dispatch_ok c'"
proof -
  have mutex: "mutex_ok c'" using ok step by (auto simp: dispatch_ok_def intro: mutex_step)
  have obs: "observing (l_pcs c t)" if "t \<noteq> 0" for t using ok that by (simp add: dispatch_ok_def)
  have disp: "dispatching c (l_pcs c 0)" using ok by (simp add: dispatch_ok_def)
  show ?thesis
  proof (cases x)
    case (Call_register t n acts i)
    with assms show ?thesis
      by (intro dispatch_move [OF ok mutex, of t "Before_lookup n acts i"]) (auto split: lpc.splits)
  next
    case (Call_locked t cs)
    with step have "direct cs" by (auto split: lpc.splits if_splits)
    then have "section_ready c cs" by (cases cs) auto
    with Call_locked assms show ?thesis
      by (intro dispatch_move [OF ok mutex, of t "Waiting cs"]) (auto split: lpc.splits if_splits)
  next
    case (Lookup t)
    with step obtain n acts i where b: "l_pcs c t = Before_lookup n acts i" by (auto split: lpc.splits)
    then have "t = 0" using obs [of t] by (cases "t = 0") auto
    define q where "q = (case lookup_service (l_shared c) n of
        None \<Rightarrow> if isNameValid n then Waiting (Emplace_section n acts i) else Outside
      | Some _ \<Rightarrow> Waiting (Online_section n (l_erased c n) (l_rehashed c)))"
    have "dispatching c q"
      using b disp \<open>t = 0\<close> by (auto simp: q_def isNameValid_iff split: option.split)
    with Lookup step b \<open>t = 0\<close> show ?thesis
      by (intro dispatch_move [OF ok mutex, of t q]) (auto simp: q_def split: option.splits if_splits)
  next
    case (Acquire t)
    with step obtain cs where cs: "l_pcs c t = Waiting cs" by (auto split: lpc.splits)
    with Acquire step disp obs [of t] show ?thesis
      by (intro dispatch_move [OF ok mutex, of t "Inside cs"]) (auto split: option.splits)
  next
    case (Release t grow)
    with step have "lock_step (Release t grow) c = Some (Inr c')" by simp
    then show ?thesis
    proof (cases rule: release_cases)
      case (finished cs c1)
      have seq: "sequential (l_shared c)" using ok by (simp add: dispatch_ok_def)
      from section_defined [OF seq dispatch_ready [OF ok finished(1)], of t grow] finished(2)
      have seq': "sequential (l_shared c')" using finished(3) by simp
      show ?thesis
      proof (cases "t = 0")
        case True
        with finished(3) mutex obs seq' show ?thesis by (auto simp: dispatch_ok_def)
      next
        case False
        from observing_inside [OF obs [OF False] finished(1)] obtain n where "cs = Query_section n" ..
        with finished False show ?thesis
          by (intro dispatch_move [OF ok mutex, of t Outside]) (auto simp: bind_result_Inr_iff)
      qed
    qed simp
  qed
qed

lemma dispatch_start: "dispatch_ok lock_start"
proof -
  have "run_ops sched_exec [] init_scheduler = Inr ([], init_scheduler)" by simp
  then have "sequential init_scheduler" unfolding sequential_def by (metis list.pred_inject(1))
  with mutex_start show ?thesis by (simp add: dispatch_ok_def lock_start_def)
qed

interpretation dispatcher: transition_system "\<lambda>c. c = lock_start" dispatched_step dispatch_ok
  by unfold_locales (auto intro: dispatch_start dispatched_keeps)

lemma run_locking_reachable:
  "reachable (\<lambda>c. c = lock_start) locked_step c \<Longrightarrow> run_locking xs c = Some (Inr c') \<Longrightarrow>
   reachable (\<lambda>c. c = lock_start) locked_step c'"
  by (induction xs c rule: run_locking.induct)
    (auto simp del: lock_step.simps split: option.splits sum.splits intro: reachable_step locked_step.intros)

section \<open>Bounded policies\<close>

text \<open>
  With policies of at most 128 actions the only undefined steps, on any number of threads, are the
  lookup during a write and the write through an invalid iterator.
\<close>

fun short_pc :: "lpc \<Rightarrow> bool" where
  "short_pc (Before_lookup n acts i) = (length acts \<le> 128)"
| "short_pc (Waiting (Emplace_section n acts i)) = (length acts \<le> 128)"
| "short_pc (Inside (Emplace_section n acts i)) = (length acts \<le> 128)"
| "short_pc _ = True"

fun bounded_call :: "lock_action \<Rightarrow> bool" where
  "bounded_call (Call_register t n acts i) = (length acts \<le> 128)"
| "bounded_call _ = True"

definition lock_safe :: "locking \<Rightarrow> bool" where
  "lock_safe c \<longleftrightarrow> conc_ok (coarse c) \<and> sched_safe (l_shared c) \<and> (\<forall>t. short_pc (l_pcs c t))"

lemma lock_safe_start: "lock_safe lock_start"
  by (simp add: lock_safe_def coarse_start start_ok) (simp add: lock_start_def init_scheduler_safe)

text \<open>The one way a section can be undefined in such a state.\<close>

lemma section_outcome:
  assumes "lock_safe c" and "l_pcs c t = Inside cs"
  obtains (finished) c' where "section_body t grow cs c = Inr c'" "sched_safe (l_shared c')"
    | (stale) n g r where "cs = Online_section n g r" "l_erased c n \<noteq> g \<or> l_rehashed c \<noteq> r"
        "section_body t grow cs c = Inl DanglingIterator"
proof -
  have safe: "sched_safe (l_shared c)" and short: "short_pc (Inside cs)" and ok: "pc_ok (coarse c) (coarse_pc (Inside cs))"
    using assms unfolding lock_safe_def conc_ok_def by (metis coarse_fields(5))+
  show thesis
  proof (cases cs)
    case (Emplace_section n acts i)
    with safe short ok finished show thesis by (auto simp: emplace_keeps)
  next
    case (Online_section n g r)
    with safe ok finished stale show thesis
      by (cases "l_erased c n = g \<and> l_rehashed c = r") (auto simp: set_online_keeps)
  next
    case (Failure_section n)
    obtain st where "onServiceFailure n (l_shared c) = Inr st" "sched_safe st" using safe by (blast elim: failure_returns)
    with Failure_section finished show thesis by auto
  next
    case (Query_section n)
    with safe getServiceState_safe [OF safe, of n] finished show thesis by auto
  qed (use safe finished in \<open>auto simp: split_beta unregister_safe report_safe\<close>)
qed

lemma lock_step_safe:
  assumes "lock_safe c" and "bounded_call x" and "lock_step x c = Some (Inr c')"
  shows "lock_safe c'"
proof -
  have conc: "conc_ok (coarse c')"
    using assms(1) coarse_step_or_none [OF assms(3)] unfolding lock_safe_def by (auto intro: interleave_ok)
  have "sched_safe (l_shared c') \<and> (\<forall>t. short_pc (l_pcs c' t))"
  proof (cases x)
    case (Release t grow)
    with assms(3) have "lock_step (Release t grow) c = Some (Inr c')" by simp
    then show ?thesis
    proof (cases rule: release_cases)
      case (finished cs c1)
      with assms(1) show ?thesis
        by (cases rule: section_outcome [OF assms(1) finished(1), of grow]) (auto simp: lock_safe_def)
    qed simp
  next
    case (Lookup t)
    with assms(1,3) show ?thesis
      by (auto simp: lock_safe_def split: lpc.splits option.splits if_splits) (metis short_pc.simps(1))+
  next
    case (Acquire t)
    with assms(3) obtain cs where "l_pcs c t = Waiting cs" "c' = c\<lparr>l_pcs := (l_pcs c)(t := Inside cs), l_owner := Some t\<rparr>"
      by (auto split: lpc.splits option.splits)
    moreover from this assms(1) have "short_pc (Waiting cs)" unfolding lock_safe_def by metis
    ultimately show ?thesis using assms(1) by (cases cs) (auto simp: lock_safe_def)
  next
    case (Call_locked t cs)
    with assms(1,3) show ?thesis by (cases cs) (auto simp: lock_safe_def split: lpc.splits if_splits)
  qed (use assms in \<open>auto simp: lock_safe_def split: lpc.splits\<close>)
  with conc show ?thesis by (simp add: lock_safe_def)
qed

lemma lock_step_undefined:
  assumes "lock_safe c" and "lock_step x c = Some (Inl e)"
  shows "(\<exists>t. x = Lookup t \<and> e = DataRace \<and> map_being_written c)
    \<or> (\<exists>t grow n g r. x = Release t grow \<and> l_pcs c t = Inside (Online_section n g r) \<and> e = DanglingIterator
          \<and> (l_erased c n \<noteq> g \<or> l_rehashed c \<noteq> r))"
proof (cases x)
  case (Release t grow)
  with assms(2) have "lock_step (Release t grow) c = Some (Inl e)" by simp
  then show ?thesis
  proof (cases rule: release_cases)
    case (undefined cs e')
    then show ?thesis
      by (cases rule: section_outcome [OF assms(1) undefined(1), of grow]) (use Release undefined in auto)
  qed simp
qed (use assms(2) in \<open>auto split: lpc.splits if_splits option.splits\<close>)

section \<open>Properties\<close>

text \<open>The state after a schedule from the start, if the schedule is possible and defined.\<close>

definition locked_after :: "lock_action list \<Rightarrow> locking" where
  "locked_after xs = projr (the (run_locking xs lock_start))"

lemma locked_after_reachable:
  assumes "case run_locking xs lock_start of Some (Inr c) \<Rightarrow> True | _ \<Rightarrow> False"
  shows "reachable (\<lambda>c. c = lock_start) locked_step (locked_after xs)"
proof -
  from assms obtain c where "run_locking xs lock_start = Some (Inr c)"
    by (auto split: option.splits sum.splits)
  with run_locking_reachable [OF reachable_init [of "\<lambda>c. c = lock_start", OF refl]] show ?thesis
    by (simp add: locked_after_def del: run_locking.simps)
qed

text \<open>
  C9: the mutex makes every section atomic. In every state the threads can reach at most one is
  inside a section; seen without the mutex the state is one the interleaved halves can reach; and
  an undefined step is the unlocked lookup while a node is being linked into the map or out of it,
  a query, or the end of a section whose step of the interleaved halves has the same error.
\<close>

theorem locking_refines_interleaving:
  assumes "reachable (\<lambda>c. c = lock_start) locked_step c"
  shows "reachable (\<lambda>c. c = start) interleave (coarse c)
    \<and> (\<forall>t u cs cs'. l_pcs c t = Inside cs \<and> l_pcs c u = Inside cs' \<longrightarrow> t = u)
    \<and> (\<forall>x e. lock_step x c = Some (Inl e) \<longrightarrow>
        (\<exists>t. x = Lookup t \<and> e = DataRace \<and> map_being_written c)
        \<or> (\<exists>t grow n. x = Release t grow \<and> l_pcs c t = Inside (Query_section n))
        \<or> (\<exists>t grow cs k. x = Release t grow \<and> l_pcs c t = Inside cs \<and> coarse_action t grow cs = Some k
              \<and> thread_step k (coarse c) = Some (Inl e)))"
proof (intro conjI allI impI)
  have mutex: "mutex_ok c" using assms by (rule locks.reachable_inv)
  show "reachable (\<lambda>c. c = start) interleave (coarse c)" using assms by (rule locks.reachable_abs)
  show "t = u" if "l_pcs c t = Inside cs \<and> l_pcs c u = Inside cs'" for t u cs cs'
    using that mutex unfolding mutex_ok_def by (metis is_inside.simps(1) option.inject)
  show "(\<exists>t. x = Lookup t \<and> e = DataRace \<and> map_being_written c)
        \<or> (\<exists>t grow n. x = Release t grow \<and> l_pcs c t = Inside (Query_section n))
        \<or> (\<exists>t grow cs k. x = Release t grow \<and> l_pcs c t = Inside cs \<and> coarse_action t grow cs = Some k
              \<and> thread_step k (coarse c) = Some (Inl e))" if undef: "lock_step x c = Some (Inl e)" for x e
  proof (cases x)
    case (Release t grow)
    with undef have rel: "lock_step (Release t grow) c = Some (Inl e)" by simp
    then obtain cs where cs: "l_pcs c t = Inside cs" by (cases rule: release_cases) auto
    show ?thesis
    proof (cases "coarse_action t grow cs")
      case None
      then obtain n where "cs = Query_section n" by (cases cs) auto
      with Release cs show ?thesis by simp
    next
      case (Some k)
      have "thread_step k (coarse c) = Some (Inl e)" unfolding coarse_release [OF cs Some] rel by simp
      with Release cs Some show ?thesis by blast
    qed
  qed (use undef in \<open>auto split: lpc.splits if_splits option.splits\<close>)
qed

theorem locking_refines_interleaving_witness:
  "reachable (\<lambda>c. c = start) interleave
     (coarse (locked_after [Call_register 3 ''AppA'' [STOP] 5, Lookup 3, Acquire 3, Call_locked 4 (Query_section ''AppA'')]))
   \<and> l_pcs (locked_after [Call_register 3 ''AppA'' [STOP] 5, Lookup 3, Acquire 3, Call_locked 4 (Query_section ''AppA'')]) 3
       = Inside (Emplace_section ''AppA'' [STOP] 5)"
proof
  let ?c = "locked_after [Call_register 3 ''AppA'' [STOP] 5, Lookup 3, Acquire 3, Call_locked 4 (Query_section ''AppA'')]"
  have r: "reachable (\<lambda>c. c = lock_start) locked_step ?c" by (rule locked_after_reachable) code_simp
  show "reachable (\<lambda>c. c = start) interleave (coarse ?c)" using locking_refines_interleaving [OF r] by blast
  show "l_pcs ?c 3 = Inside (Emplace_section ''AppA'' [STOP] 5)" by code_simp
qed

text \<open>
  C10: two registrations alone already race. From every reachable state in which the mutex is free
  and two threads are idle, let one of them register a catalogue name that is not registered yet:
  if the other one looks up any name while the first is inside its section, it reads the map while
  it is being written.
\<close>

theorem concurrent_registrations_race:
  assumes "reachable (\<lambda>c. c = lock_start) locked_step c" and "l_owner c = None" and "t \<noteq> u"
    and "l_pcs c t = Outside" and "l_pcs c u = Outside"
    and "n \<in> catalogue_names" and "lookup_service (l_shared c) n = None"
  shows "run_locking [Call_register t n acts i, Call_register u m acts' i', Lookup t, Acquire t, Lookup u] c
    = Some (Inl DataRace)"
proof -
  have "mutex_ok c" using assms(1) by (rule locks.reachable_inv)
  with assms show ?thesis by (simp add: map_being_written_def isNameValid_iff)
qed

theorem concurrent_registrations_race_witness:
  "run_locking [Call_register 1 ''AppB'' [] 0, Call_register 2 ''AppA'' [] 0, Lookup 1, Acquire 1, Lookup 2]
     (locked_after [Call_register 1 ''AppA'' [STOP] 5, Lookup 1, Acquire 1, Release 1 True]) = Some (Inl DataRace)"
proof (rule concurrent_registrations_race)
  let ?c = "locked_after [Call_register 1 ''AppA'' [STOP] 5, Lookup 1, Acquire 1, Release 1 True]"
  show "reachable (\<lambda>c. c = lock_start) locked_step ?c" by (rule locked_after_reachable) code_simp
  show "l_owner ?c = None" "l_pcs ?c 1 = Outside" "l_pcs ?c 2 = Outside" "lookup_service (l_shared ?c) ''AppB'' = None"
    by code_simp+
qed (simp_all add: catalogue_names_def g_MapServiceNames_def)

text \<open>
  C7: with one dispatching thread the code is correct as it stands. If a single thread delivers
  all calls that change the registry, policies have at most 128 actions, and any number of other
  threads query at any time, then in every reachable state every enabled step is defined (no data
  race, no dangling iterator, no index out of range), and the registry is the result of executing
  whole operations one after the other.
\<close>

theorem single_dispatcher_is_sequential:
  assumes "reachable (\<lambda>c. c = lock_start) dispatched_step c"
  shows "(\<exists>xs rs. list_all bounded_op xs \<and> run_ops sched_exec xs init_scheduler = Inr (rs, l_shared c))
    \<and> (\<forall>x r. lock_step x c = Some r \<longrightarrow> (\<exists>c'. r = Inr c'))"
proof -
  have ok: "dispatch_ok c" using assms by (rule dispatcher.reachable_inv)
  then have "sequential (l_shared c)" by (simp add: dispatch_ok_def)
  with dispatched_defined [OF ok] show ?thesis by (auto simp: sequential_def simp del: lock_step.simps)
qed

lemma run_dispatched_reachable:
  "reachable (\<lambda>c. c = lock_start) dispatched_step c \<Longrightarrow> list_all one_dispatcher xs \<Longrightarrow>
   run_locking xs c = Some (Inr c') \<Longrightarrow> reachable (\<lambda>c. c = lock_start) dispatched_step c'"
  by (induction xs c rule: run_locking.induct)
    (auto simp del: lock_step.simps split: option.splits sum.splits intro: reachable_step dispatched_step.intros)

theorem single_dispatcher_is_sequential_witness:
  "\<exists>xs rs. list_all bounded_op xs \<and> run_ops sched_exec xs init_scheduler =
     Inr (rs, l_shared (locked_after [Call_register 0 ''AppA'' [STOP] 5, Lookup 0, Call_locked 7 (Query_section ''AppA''),
       Acquire 7, Release 7 False, Acquire 0, Release 0 True]))"
proof -
  let ?xs = "[Call_register 0 ''AppA'' [STOP] 5, Lookup 0, Call_locked 7 (Query_section ''AppA''),
       Acquire 7, Release 7 False, Acquire 0, Release 0 True]"
  have "case run_locking ?xs lock_start of Some (Inr c) \<Rightarrow> True | _ \<Rightarrow> False" by code_simp
  then obtain c where run: "run_locking ?xs lock_start = Some (Inr c)"
    by (auto split: option.splits sum.splits simp del: run_locking.simps)
  have "reachable (\<lambda>c. c = lock_start) dispatched_step c"
    by (rule run_dispatched_reachable [OF reachable_init [of "\<lambda>c. c = lock_start", OF refl] _ run]) simp
  from single_dispatcher_is_sequential [OF this] run show ?thesis
    by (simp add: locked_after_def del: run_locking.simps run_ops.simps)
qed

end
