(* ===== verification/Dispatch.thy ===== *)
theory Dispatch
  imports Locking Daemon_Props
begin

text \<open>
  Both components and both mutexes in one machine. Any number of threads run the stub's handlers;
  a handler that calls the scheduler does so at the granularity of \<open>Locking\<close> (an unlocked lookup,
  waiting for \<^verbatim>\<open>m_MutxServiceInfo\<close>, holding it, releasing it), and takes \<^verbatim>\<open>m_NameMutex\<close> in a step of
  its own, before that call (\<^verbatim>\<open>handleNameOwnerChanged\<close>) or after it (\<^verbatim>\<open>registerService\<close>,
  \<^verbatim>\<open>unregisterService\<close>). Other threads, such as the console, query the scheduler. The callbacks are
  the scheduler's methods, as \<^verbatim>\<open>init\<close> installs them.
\<close>

section \<open>The machine\<close>

datatype dpc =
    Ready
  | In_register string string pid_t   \<comment> \<open>inside \<^verbatim>\<open>onRegisterService\<close>; the caller's bus name and pid\<close>
  | In_unregister string
  | In_report
  | In_failure
  | In_query
  | Recording string PeerInfo          \<comment> \<open>\<^verbatim>\<open>registerService\<close>, before \<^verbatim>\<open>m_NameMutex\<close>\<close>
  | Forgetting string                  \<comment> \<open>\<^verbatim>\<open>unregisterService\<close>, before \<^verbatim>\<open>m_NameMutex\<close>\<close>

record ('conn, 'tok) dispatch =
  s_lock :: locking
  s_stub :: "(CRecoveryScheduler, 'conn, 'tok) CRecoverySchedulerStubImpl"
  s_pcs :: "nat \<Rightarrow> dpc"
  s_replies :: "nat \<Rightarrow> reply option"

datatype ('client, 'msg) dispatch_action =
    Handle nat "('client, 'msg) event"   \<comment> \<open>a thread starts a handler\<close>
  | Query nat string                     \<comment> \<open>a thread calls \<^verbatim>\<open>getServiceState\<close>\<close>
  | Inner lock_action                    \<comment> \<open>a thread goes on inside the scheduler\<close>
  | Return nat                           \<comment> \<open>the scheduler's method returns to its caller\<close>
  | Update nat                           \<comment> \<open>a handler updates the watch table\<close>

definition goto :: "nat \<Rightarrow> dpc \<Rightarrow> reply option \<Rightarrow> ('conn, 'tok) dispatch \<Rightarrow> ('conn, 'tok) dispatch" where
  "goto t p r d = d\<lparr>s_pcs := (s_pcs d)(t := p), s_replies := (s_replies d)(t := r)\<rparr>"

definition with_lock :: "lock_action \<Rightarrow> ('conn, 'tok) dispatch \<Rightarrow> ('conn, 'tok) dispatch result option" where
  "with_lock x d = map_option (map_sum id (\<lambda>l. d\<lparr>s_lock := l\<rparr>)) (lock_step x (s_lock d))"

definition set_watch :: "(string, PeerInfo) umap \<Rightarrow> ('conn, 'tok) dispatch \<Rightarrow> ('conn, 'tok) dispatch" where
  "set_watch m d = d\<lparr>s_stub := (s_stub d)\<lparr>m_ServiceToBusName := m\<rparr>\<rparr>"

abbreviation watch_table :: "('conn, 'tok) dispatch \<Rightarrow> (string, PeerInfo) umap" where
  "watch_table d \<equiv> m_ServiceToBusName (s_stub d)"

fun start_handler ::
  "('client, 'dbus, 'conn, 'msg, 'tok) capi \<Rightarrow> nat \<Rightarrow> ('client, 'msg) event \<Rightarrow> ('conn, 'tok) dispatch \<Rightarrow>
   ('conn, 'tok) dispatch result option"
where
  "start_handler env t (CallRegister client lStrName wireActions liInterval) d =
     (let lActions = map RecoveryState_of_wire wireActions;
          lUniqueBusName = extractDbusUniqueName env client;
          lPid = queryUnixPidForBusName env (s_stub d) lUniqueBusName
      in with_lock (Call_register t lStrName lActions liInterval)
           (goto t (In_register lStrName lUniqueBusName lPid) None d))"
| "start_handler env t (CallUnregister client lStrName) d =
     with_lock (Call_locked t (Unregister_section lStrName)) (goto t (In_unregister lStrName) None d)"
| "start_handler env t (CallReport client lStrName wireCurrent wireLast) d =
     with_lock (Call_locked t (Report_section lStrName (RecoveryState_of_wire wireCurrent) (RecoveryState_of_wire wireLast)))
       (goto t In_report None d)"
| "start_handler env t (BusSignal msg) d =
     (let (busName, oldOwner, newOwner) = readNameOwnerChanged env msg
      in if newOwner = []
         then (case watcher_of busName (s_stub d) of
                 None \<Rightarrow> Some (Inr (goto t Ready (Some NoReply) d))
               | Some (key, _) \<Rightarrow>
                   (let d' = set_watch (umap_erase key (watch_table d)) d
                    in if key \<noteq> [] then with_lock (Call_locked t (Failure_section key)) (goto t In_failure None d')
                       else Some (Inr (goto t Ready (Some NoReply) d'))))
         else Some (Inr (goto t Ready (Some NoReply) d)))"

text \<open>What the caller does with the result of the scheduler's method.\<close>

fun return_to :: "nat \<Rightarrow> dpc \<Rightarrow> ('conn, 'tok) dispatch \<Rightarrow> ('conn, 'tok) dispatch option" where
  "return_to t (In_register lStrName lUniqueBusName lPid) d =
     (case l_replied (s_lock d) t of
        None \<Rightarrow> None
      | Some isOk \<Rightarrow>
          if isOk \<and> lUniqueBusName \<noteq> []
          then Some (goto t (Recording lStrName \<lparr>uniqueBusName = lUniqueBusName, peer_pid = lPid\<rparr>) None d)
          else Some (goto t Ready (Some (RegisterReply (if isOk then Register_OK else INVALID_NAME))) d))"
| "return_to t (In_unregister lStrName) d =
     (case l_returned (s_lock d) t of
        None \<Rightarrow> None
      | Some isOk \<Rightarrow>
          if isOk then Some (goto t (Forgetting lStrName) None d)
          else Some (goto t Ready (Some (UnregisterReply Unregister_NOT_FOUND)) d))"
| "return_to t In_report d =
     (case l_returned (s_lock d) t of
        None \<Rightarrow> None
      | Some isOk \<Rightarrow> Some (goto t Ready (Some (QueryReply (if isOk then Query_OK else Query_NOT_FOUND))) d))"
| "return_to t In_failure d = Some (goto t Ready (Some NoReply) d)"
| "return_to t In_query d = Some (goto t Ready (Some NoReply) d)"
| "return_to t _ d = None"

fun update_watch :: "nat \<Rightarrow> dpc \<Rightarrow> ('conn, 'tok) dispatch \<Rightarrow> ('conn, 'tok) dispatch option" where
  "update_watch t (Recording lStrName peer) d =
     Some (goto t Ready (Some (RegisterReply Register_OK)) (set_watch (umap_assign lStrName peer (watch_table d)) d))"
| "update_watch t (Forgetting lStrName) d =
     Some (goto t Ready (Some (UnregisterReply Unregister_OK)) (set_watch (umap_erase lStrName (watch_table d)) d))"
| "update_watch t _ d = None"

fun inner :: "lock_action \<Rightarrow> bool" where
  "inner (Lookup t) = True"
| "inner (Acquire t) = True"
| "inner (Release t grow) = True"
| "inner _ = False"

text \<open>One step; \<open>None\<close>: not enabled.\<close>

fun dispatch_step ::
  "('client, 'dbus, 'conn, 'msg, 'tok) capi \<Rightarrow> ('client, 'msg) dispatch_action \<Rightarrow> ('conn, 'tok) dispatch \<Rightarrow>
   ('conn, 'tok) dispatch result option"
where
  "dispatch_step env (Handle t e) d = (if s_pcs d t = Ready then start_handler env t e d else None)"
| "dispatch_step env (Query t n) d =
     (if s_pcs d t = Ready then with_lock (Call_locked t (Query_section n)) (goto t In_query None d) else None)"
| "dispatch_step env (Inner x) d = (if inner x then with_lock x d else None)"
| "dispatch_step env (Return t) d =
     (if l_pcs (s_lock d) t = Outside then map_option Inr (return_to t (s_pcs d t) d) else None)"
| "dispatch_step env (Update t) d = map_option Inr (update_watch t (s_pcs d t) d)"

definition dispatch_boot :: "('client, 'dbus, 'conn, 'msg, 'tok) capi \<Rightarrow> ('conn, 'tok) dispatch" where
  "dispatch_boot env =
     \<lparr>s_lock = lock_start, s_stub = d_stub (snd (daemon_boot env)), s_pcs = (\<lambda>_. Ready), s_replies = (\<lambda>_. None)\<rparr>"

fun run_dispatch ::
  "('client, 'dbus, 'conn, 'msg, 'tok) capi \<Rightarrow> ('client, 'msg) dispatch_action list \<Rightarrow> ('conn, 'tok) dispatch \<Rightarrow>
   ('conn, 'tok) dispatch result option"
where
  "run_dispatch env [] d = Some (Inr d)"
| "run_dispatch env (x # xs) d =
     (case dispatch_step env x d of
        None \<Rightarrow> None
      | Some (Inl e) \<Rightarrow> Some (Inl e)
      | Some (Inr d') \<Rightarrow> run_dispatch env xs d')"

fun bounded_dispatch :: "('client, 'msg) dispatch_action \<Rightarrow> bool" where
  "bounded_dispatch (Handle t e) = bounded_event e"
| "bounded_dispatch _ = True"

inductive dispatch_trans ::
  "('client, 'dbus, 'conn, 'msg, 'tok) capi \<Rightarrow> ('conn, 'tok) dispatch \<Rightarrow> ('client, 'msg) dispatch_action \<Rightarrow>
   ('conn, 'tok) dispatch \<Rightarrow> bool" for env
where
  "bounded_dispatch x \<Longrightarrow> dispatch_step env x d = Some (Inr d') \<Longrightarrow> dispatch_trans env d x d'"

inductive_cases dispatch_transE [elim!]: "dispatch_trans env d x d'"

section \<open>Invariant\<close>

text \<open>Where the registration of a name is inside the scheduler, or what it has answered.\<close>

fun registering :: "string \<Rightarrow> bool option \<Rightarrow> lpc \<Rightarrow> bool" where
  "registering n r Outside = (r = Some True \<longrightarrow> n \<in> catalogue_names)"
| "registering n r (Before_lookup m acts i) = (m = n)"
| "registering n r (Waiting (Emplace_section m acts i)) = (m = n)"
| "registering n r (Inside (Emplace_section m acts i)) = (m = n)"
| "registering n r (Waiting (Online_section m g k)) = (m = n)"
| "registering n r (Inside (Online_section m g k)) = (m = n)"
| "registering n r _ = False"

fun dpc_ok :: "locking \<Rightarrow> nat \<Rightarrow> dpc \<Rightarrow> bool" where
  "dpc_ok l t (In_register n b p) = registering n (l_replied l t) (l_pcs l t)"
| "dpc_ok l t (Recording n peer) = (n \<in> catalogue_names \<and> uniqueBusName peer \<noteq> [])"
| "dpc_ok l t _ = True"

definition dispatch_safe :: "('conn, 'tok) dispatch \<Rightarrow> bool" where
  "dispatch_safe d \<longleftrightarrow>
     lock_safe (s_lock d) \<and> watch_ok (\<lambda>n. n \<in> catalogue_names) (watch_table d) \<and>
     (\<forall>t. dpc_ok (s_lock d) t (s_pcs d t))"

lemma goto_fields [simp]:
  "s_lock (goto t p r d) = s_lock d" "s_stub (goto t p r d) = s_stub d" "s_pcs (goto t p r d) = (s_pcs d)(t := p)"
  by (simp_all add: goto_def)

lemma set_watch_fields [simp]:
  "s_lock (set_watch m d) = s_lock d" "watch_table (set_watch m d) = m" "s_pcs (set_watch m d) = s_pcs d"
  by (simp_all add: set_watch_def)

lemma with_lock_Inr:
  "with_lock x d = Some (Inr d') \<longleftrightarrow> (\<exists>l. lock_step x (s_lock d) = Some (Inr l) \<and> d' = d\<lparr>s_lock := l\<rparr>)"
  unfolding with_lock_def by (cases "lock_step x (s_lock d)"; cases "the (lock_step x (s_lock d))") auto

lemma with_lock_Inl: "with_lock x d = Some (Inl e) \<longleftrightarrow> lock_step x (s_lock d) = Some (Inl e)"
  unfolding with_lock_def by (cases "lock_step x (s_lock d)"; cases "the (lock_step x (s_lock d))") auto

text \<open>The thread of a step inside the scheduler; the others are not affected.\<close>

fun lock_thread :: "lock_action \<Rightarrow> nat" where
  "lock_thread (Call_register t n acts i) = t"
| "lock_thread (Call_locked t cs) = t"
| "lock_thread (Lookup t) = t"
| "lock_thread (Acquire t) = t"
| "lock_thread (Release t grow) = t"

lemma section_body_replied:
  "section_body t grow cs c = Inr c' \<Longrightarrow> u \<noteq> t \<Longrightarrow> l_replied c' u = l_replied c u"
  by (cases cs) (auto simp: bind_result_Inr_iff split: if_splits prod.splits)

lemma lock_step_other:
  assumes "lock_step x c = Some (Inr c')" and "u \<noteq> lock_thread x"
  shows "l_pcs c' u = l_pcs c u \<and> l_replied c' u = l_replied c u"
proof (cases x)
  case (Release t grow)
  with assms(1) have "lock_step (Release t grow) c = Some (Inr c')" by simp
  then show ?thesis
  proof (cases rule: release_cases)
    case (finished cs c1)
    with Release assms(2) section_body_replied [OF finished(2), of u] show ?thesis by auto
  qed simp
qed (use assms in \<open>auto split: lpc.splits option.splits if_splits\<close>)

lemma registering_section:
  assumes "lock_safe c" and "l_pcs c t = Inside cs" and "registering n r (Inside cs)"
  shows "n \<in> catalogue_names"
proof -
  have "pc_ok (coarse c) (coarse_pc (Inside cs))"
    using assms(1,2) unfolding lock_safe_def conc_ok_def by (metis coarse_fields(5))
  with assms(3) show ?thesis by (cases cs) auto
qed

lemma registering_step:
  assumes "lock_safe c" and "inner x" and "lock_step x c = Some (Inr c')"
    and "registering n (l_replied c t) (l_pcs c t)"
  shows "registering n (l_replied c' t) (l_pcs c' t)"
proof (cases "t = lock_thread x")
  case False
  with lock_step_other [OF assms(3)] assms(4) show ?thesis by simp
next
  case True
  show ?thesis
  proof (cases x)
    case (Lookup u)
    with True assms(3,4) show ?thesis by (auto split: lpc.splits option.splits if_splits)
  next
    case (Acquire u)
    with True assms(3) obtain cs where "l_pcs c t = Waiting cs" "l_pcs c' t = Inside cs" "l_replied c' = l_replied c"
      by (auto split: lpc.splits option.splits)
    with assms(4) show ?thesis by (cases cs) auto
  next
    case (Release u grow)
    with assms(3) have "lock_step (Release u grow) c = Some (Inr c')" by simp
    then show ?thesis
    proof (cases rule: release_cases)
      case (finished cs c1)
      with Release True registering_section [OF assms(1), of t cs n] assms(4) show ?thesis by auto
    qed simp
  qed (use assms(2) in auto)
qed

section \<open>Every step keeps it\<close>

lemma dpc_frame:
  assumes "lock_step x c = Some (Inr c')" and "u \<noteq> lock_thread x"
  shows "dpc_ok c' u p = dpc_ok c u p"
  using lock_step_other [OF assms] by (cases p) simp_all

text \<open>A handler that has just called the scheduler.\<close>

lemma called_safe:
  assumes safe: "dispatch_safe d0" and step: "with_lock x (goto (lock_thread x) p r d) = Some (Inr d')"
    and "s_lock d = s_lock d0" "s_pcs d = s_pcs d0" "bounded_call x"
    and "watch_ok (\<lambda>n. n \<in> catalogue_names) (watch_table d)"
    and "\<And>l. lock_step x (s_lock d0) = Some (Inr l) \<Longrightarrow> dpc_ok l (lock_thread x) p"
  shows "dispatch_safe d'"
proof -
  from step assms(3) obtain l where l: "lock_step x (s_lock d0) = Some (Inr l)"
      "d' = (goto (lock_thread x) p r d)\<lparr>s_lock := l\<rparr>"
    by (auto simp: with_lock_Inr)
  have "dpc_ok l u (s_pcs d' u)" for u
  proof (cases "u = lock_thread x")
    case True
    with assms(7) [OF l(1)] l(2) show ?thesis by simp
  next
    case False
    with dpc_frame [OF l(1) False] safe l(2) assms(4) show ?thesis by (simp add: dispatch_safe_def)
  qed
  moreover have "lock_safe l" using lock_step_safe [OF _ assms(5) l(1)] safe by (simp add: dispatch_safe_def)
  ultimately show ?thesis using l(2) assms(6) by (simp add: dispatch_safe_def)
qed

lemma goto_safe:
  assumes "dispatch_safe d" and "s_lock d' = s_lock d" "s_pcs d' = s_pcs d"
    and "watch_ok (\<lambda>n. n \<in> catalogue_names) (watch_table d')" and "dpc_ok (s_lock d) t p"
  shows "dispatch_safe (goto t p r d')"
  using assms by (simp add: dispatch_safe_def)

lemma start_handler_safe:
  assumes safe: "dispatch_safe d" and "bounded_event e" and step: "start_handler env t e d = Some (Inr d')"
  shows "dispatch_safe d'"
proof -
  have watch: "watch_ok (\<lambda>n. n \<in> catalogue_names) (watch_table d)" using safe by (simp add: dispatch_safe_def)
  show ?thesis
  proof (cases e)
    case (CallRegister client n acts i)
    let ?x = "Call_register t n (map RecoveryState_of_wire acts) i"
    have "dpc_ok l t (In_register n b p)" if "lock_step ?x (s_lock d) = Some (Inr l)" for l b p
      using that by (auto split: lpc.splits)
    with CallRegister assms watch show ?thesis by (auto simp: Let_def intro: called_safe [of d ?x])
  next
    case (CallUnregister client n)
    with assms watch show ?thesis by (auto intro: called_safe [of d "Call_locked t (Unregister_section n)"])
  next
    case (CallReport client n c l)
    with assms watch show ?thesis
      by (auto intro: called_safe [of d "Call_locked t (Report_section n (RecoveryState_of_wire c) (RecoveryState_of_wire l))"])
  next
    case (BusSignal msg)
    obtain b old new where rd: "readNameOwnerChanged env msg = (b, old, new)" by (rule prod_cases3)
    let ?d = "\<lambda>k. set_watch (umap_erase k (watch_table d)) d"
    have erase: "watch_ok (\<lambda>n. n \<in> catalogue_names) (watch_table (?d k))" for k
      using watch by (auto intro: watch_ok_erase)
    have idle: "dispatch_safe (goto t Ready r d)" "dispatch_safe (goto t Ready r (?d k))" for r k
      by (rule goto_safe [OF safe]; simp add: watch erase [simplified])+
    have "dispatch_safe d'" if "with_lock (Call_locked t (Failure_section k)) (goto t In_failure None (?d k)) = Some (Inr d')" for k
      using called_safe [OF safe, of "Call_locked t (Failure_section k)" In_failure None "?d k" d'] that erase by simp
    with BusSignal step idle show ?thesis by (auto simp: rd Let_def split: if_splits option.splits)
  qed
qed

lemma return_safe:
  assumes safe: "dispatch_safe d" and "l_pcs (s_lock d) t = Outside" and step: "return_to t (s_pcs d t) d = Some d'"
  shows "dispatch_safe d'"
proof -
  have watch: "watch_ok (\<lambda>n. n \<in> catalogue_names) (watch_table d)" and pc: "dpc_ok (s_lock d) t (s_pcs d t)"
    using safe by (simp_all add: dispatch_safe_def)
  note goto = goto_safe [OF safe refl refl watch]
  show ?thesis
  proof (cases "s_pcs d t")
    case (In_register n b p)
    with step pc assms(2) show ?thesis by (auto intro!: goto split: option.splits if_splits)
  qed (use step in \<open>auto intro!: goto split: option.splits if_splits\<close>)
qed

lemma update_safe:
  assumes safe: "dispatch_safe d" and step: "update_watch t (s_pcs d t) d = Some d'"
  shows "dispatch_safe d'"
proof -
  have watch: "watch_ok (\<lambda>n. n \<in> catalogue_names) (watch_table d)" and pc: "dpc_ok (s_lock d) t (s_pcs d t)"
    using safe by (simp_all add: dispatch_safe_def)
  show ?thesis
  proof (cases "s_pcs d t")
    case (Recording n peer)
    with pc watch have "watch_ok (\<lambda>n. n \<in> catalogue_names) (umap_assign n peer (watch_table d))"
      by (auto intro!: watch_ok_assign dest: catalogue_names_nonempty)
    with Recording step show ?thesis by (auto intro!: goto_safe [OF safe])
  next
    case (Forgetting n)
    from watch have "watch_ok (\<lambda>n. n \<in> catalogue_names) (umap_erase n (watch_table d))" by (auto intro: watch_ok_erase)
    with Forgetting step show ?thesis by (auto intro!: goto_safe [OF safe])
  qed (use step in simp_all)
qed

lemma inner_safe:
  assumes safe: "dispatch_safe d" and "inner x" and step: "with_lock x d = Some (Inr d')"
  shows "dispatch_safe d'"
proof -
  from step obtain l where l: "lock_step x (s_lock d) = Some (Inr l)" "d' = d\<lparr>s_lock := l\<rparr>" by (auto simp: with_lock_Inr)
  have lock: "lock_safe (s_lock d)" using safe by (simp add: dispatch_safe_def)
  moreover have "bounded_call x" using assms(2) by (cases x) auto
  ultimately have "lock_safe l" using lock_step_safe l(1) by blast
  moreover have "dpc_ok l t (s_pcs d t)" for t
  proof -
    have "dpc_ok (s_lock d) t (s_pcs d t)" using safe by (simp add: dispatch_safe_def)
    with registering_step [OF lock assms(2) l(1), of _ t] show ?thesis by (cases "s_pcs d t") auto
  qed
  ultimately show ?thesis using safe l(2) by (simp add: dispatch_safe_def)
qed

lemma dispatch_step_safe:
  assumes "dispatch_safe d" and "bounded_dispatch x" and "dispatch_step env x d = Some (Inr d')"
  shows "dispatch_safe d'"
proof (cases x)
  case (Handle t e)
  with assms start_handler_safe show ?thesis by (auto simp del: start_handler.simps split: if_splits)
next
  case (Query t n)
  have "watch_ok (\<lambda>n. n \<in> catalogue_names) (watch_table d)" using assms(1) by (simp add: dispatch_safe_def)
  with Query assms(3) called_safe [OF assms(1), of "Call_locked t (Query_section n)" In_query None d d'] show ?thesis
    by (auto split: if_splits)
next
  case (Inner y)
  with assms inner_safe show ?thesis by (auto split: if_splits)
next
  case (Return t)
  with assms(3) return_safe [OF assms(1), of t] show ?thesis by (auto simp del: return_to.simps split: if_splits)
next
  case (Update t)
  with assms(3) update_safe [OF assms(1), of t] show ?thesis by (auto simp del: update_watch.simps)
qed

lemma dispatch_boot_safe: "dispatch_safe (dispatch_boot env)"
proof -
  have "m_ServiceToBusName (d_stub (snd (daemon_boot env))) = []"
    by (simp add: daemon_boot_def new_instance_def scheduler_run_def scheduler_init_def setCallbacks_def
        new_stub_def split_beta stub_run_keeps [OF surjective_pairing])
  then show ?thesis
    by (simp add: dispatch_safe_def dispatch_boot_def lock_safe_start watch_ok_def)
qed

interpretation dispatching: transition_system "\<lambda>d. d = dispatch_boot env" "dispatch_trans env" dispatch_safe for env
  by unfold_locales (auto intro: dispatch_boot_safe dispatch_step_safe)

section \<open>Properties\<close>

text \<open>The only errors are those of the scheduler's own steps.\<close>

lemma start_handler_undefined: "start_handler env t e d \<noteq> Some (Inl x)"
  by (cases e) (auto simp: Let_def with_lock_Inl split_beta split: if_splits option.splits lpc.splits)

lemma dispatch_step_undefined:
  assumes "dispatch_step env x d = Some (Inl e)"
  obtains y where "x = Inner y" "lock_step y (s_lock d) = Some (Inl e)"
proof (cases x)
  case (Handle t ev)
  with assms start_handler_undefined [of env t ev d e] show thesis by (auto simp del: start_handler.simps split: if_splits)
next
  case (Query t n)
  with assms show thesis by (auto simp: with_lock_Inl split: if_splits lpc.splits)
next
  case (Inner y)
  with assms that show thesis by (auto simp: with_lock_Inl simp del: lock_step.simps split: if_splits)
qed (use assms in \<open>auto split: if_splits\<close>)

text \<open>
  C14: overlapping handlers are undefined in two ways only. Take any number of threads that run the
  stub's handlers and query the scheduler, interleaved at both mutexes and at the unlocked lookup,
  with policies of at most 128 actions. In every reachable state every watched service has a
  catalogue name and a non-empty bus name, and an undefined step is either the lookup of a
  registration while another thread links a node into the map or out of it, or the write of a
  re-registration through an iterator that an erasure or a rehash has invalidated since its lookup.
  So no crash, report, query, unregistration or watch-table update is ever undefined.
\<close>

theorem handlers_undefined_only_by_races:
  assumes "reachable (\<lambda>d. d = dispatch_boot env) (dispatch_trans env) d"
  shows "(\<forall>n peer. lookup_peer (s_stub d) n = Some peer \<longrightarrow> n \<in> catalogue_names \<and> uniqueBusName peer \<noteq> [])
    \<and> (\<forall>x e. dispatch_step env x d = Some (Inl e) \<longrightarrow>
        (\<exists>t. x = Inner (Lookup t) \<and> e = DataRace \<and> map_being_written (s_lock d))
        \<or> (\<exists>t grow n g r. x = Inner (Release t grow) \<and> l_pcs (s_lock d) t = Inside (Online_section n g r)
              \<and> e = DanglingIterator \<and> (l_erased (s_lock d) n \<noteq> g \<or> l_rehashed (s_lock d) \<noteq> r)))"
proof (intro conjI allI impI)
  have safe: "dispatch_safe d" using assms by (rule dispatching.reachable_inv)
  then have watch: "watch_ok (\<lambda>n. n \<in> catalogue_names) (watch_table d)" and lock: "lock_safe (s_lock d)"
    by (simp_all add: dispatch_safe_def)
  show "n \<in> catalogue_names" "uniqueBusName peer \<noteq> []" if "lookup_peer (s_stub d) n = Some peer" for n peer
    using watch_okD [OF watch that] by simp_all
  fix x e
  assume "dispatch_step env x d = Some (Inl e)"
  then obtain y where y: "x = Inner y" "lock_step y (s_lock d) = Some (Inl e)" by (rule dispatch_step_undefined)
  from lock_step_undefined [OF lock y(2)] show "(\<exists>t. x = Inner (Lookup t) \<and> e = DataRace \<and> map_being_written (s_lock d))
        \<or> (\<exists>t grow n g r. x = Inner (Release t grow) \<and> l_pcs (s_lock d) t = Inside (Online_section n g r)
              \<and> e = DanglingIterator \<and> (l_erased (s_lock d) n \<noteq> g \<or> l_rehashed (s_lock d) \<noteq> r))"
    unfolding y(1) by blast
qed

lemma run_dispatch_reachable:
  "reachable (\<lambda>d. d = dispatch_boot env) (dispatch_trans env) d \<Longrightarrow> list_all bounded_dispatch xs \<Longrightarrow>
   run_dispatch env xs d = Some (Inr d') \<Longrightarrow> reachable (\<lambda>d. d = dispatch_boot env) (dispatch_trans env) d'"
  by (induction env xs d rule: run_dispatch.induct)
    (auto simp del: dispatch_step.simps split: option.splits sum.splits intro: reachable_step dispatch_trans.intros)

definition demo_dispatch :: "(string, string \<times> string \<times> string) dispatch_action list \<Rightarrow> (unit, nat) dispatch" where
  "demo_dispatch xs = projr (the (run_dispatch demo_capi xs (dispatch_boot demo_capi)))"

theorem handlers_undefined_only_by_races_witness:
  "\<exists>t g r. l_pcs (s_lock (demo_dispatch [Handle 7 (CallRegister (Some '':1.7'') ''AppA'' [0] 5), Inner (Lookup 7), Inner (Acquire 7),
       Inner (Release 7 True), Return 7, Update 7, Handle 7 (CallUnregister (Some '':1.7'') ''AppA''),
       Handle 8 (CallRegister (Some '':1.8'') ''AppA'' [1] 5), Inner (Lookup 8), Inner (Acquire 7), Inner (Release 7 False),
       Inner (Acquire 8)])) t = Inside (Online_section ''AppA'' g r)"
proof -
  let ?xs = "[Handle 7 (CallRegister (Some '':1.7'') ''AppA'' [0] 5), Inner (Lookup 7), Inner (Acquire 7),
       Inner (Release 7 True), Return 7, Update 7, Handle 7 (CallUnregister (Some '':1.7'') ''AppA''),
       Handle 8 (CallRegister (Some '':1.8'') ''AppA'' [1] 5), Inner (Lookup 8), Inner (Acquire 7), Inner (Release 7 False),
       Inner (Acquire 8)] :: (string, string \<times> string \<times> string) dispatch_action list"
  let ?d = "demo_dispatch ?xs"
  have "case run_dispatch demo_capi ?xs (dispatch_boot demo_capi) of Some (Inr d) \<Rightarrow> True | _ \<Rightarrow> False" by code_simp
  then obtain d where run: "run_dispatch demo_capi ?xs (dispatch_boot demo_capi) = Some (Inr d)"
    by (auto split: option.splits sum.splits simp del: run_dispatch.simps)
  have r: "reachable (\<lambda>d. d = dispatch_boot demo_capi) (dispatch_trans demo_capi) ?d"
    using run_dispatch_reachable [OF reachable_init [of "\<lambda>d. d = dispatch_boot demo_capi", OF refl] _ run] run
    by (simp add: demo_dispatch_def del: run_dispatch.simps)
  have "case dispatch_step demo_capi (Inner (Release 8 False)) ?d of Some (Inl e) \<Rightarrow> e = DanglingIterator | _ \<Rightarrow> False"
    by code_simp
  then have "dispatch_step demo_capi (Inner (Release 8 False)) ?d = Some (Inl DanglingIterator)"
    by (auto split: option.splits sum.splits simp del: dispatch_step.simps)
  with handlers_undefined_only_by_races [OF r]
  obtain t g r n where stale: "l_pcs (s_lock ?d) 8 = Inside (Online_section n g r)" by blast
  moreover have "case l_pcs (s_lock ?d) 8 of Inside (Online_section n g r) \<Rightarrow> n = ''AppA'' | _ \<Rightarrow> False" by code_simp
  ultimately show ?thesis by auto
qed

end
