(* ===== verification/Stub_Interleaving.thy ===== *)
theory Stub_Interleaving
  imports Daemon_Props
begin

text \<open>
  The stub's handlers when several threads dispatch. \<^verbatim>\<open>m_NameMutex\<close> guards the watch table only:
  \<^verbatim>\<open>registerService\<close> and \<^verbatim>\<open>unregisterService\<close> call the scheduler first and update the table in a later
  critical section, and \<^verbatim>\<open>handleNameOwnerChanged\<close> erases its entry and calls the scheduler after
  it has released the mutex. Each handler is therefore two steps, and another handler may run
  between them. The scheduler's callbacks are single steps here, which is enough for the schedules
  below and for a single thread; \<open>Dispatch\<close> has the handlers and the scheduler's own steps in one
  machine.
\<close>

section \<open>The machine\<close>

text \<open>Where a dispatching thread is: outside every handler, or between the steps of one.\<close>

datatype hpc =
    Free
  | Record_peer string PeerInfo   \<comment> \<open>\<^verbatim>\<open>registerService\<close>, accepted, before \<^verbatim>\<open>m_NameMutex\<close>\<close>
  | Forget_peer string            \<comment> \<open>\<^verbatim>\<open>unregisterService\<close>, accepted, before \<^verbatim>\<open>m_NameMutex\<close>\<close>
  | Notify_failure string         \<comment> \<open>\<^verbatim>\<open>handleNameOwnerChanged\<close>, after \<^verbatim>\<open>m_NameMutex\<close>\<close>

record ('conn, 'tok) handlers =
  h_daemon :: "('conn, 'tok) daemon"
  h_pcs :: "nat \<Rightarrow> hpc"
  h_replies :: "nat \<Rightarrow> reply option"

datatype ('client, 'msg) handler_action =
    Enter nat "('client, 'msg) event"
  | Leave nat

text \<open>The part of a handler before its second step, with the reply if there is no second step.\<close>

fun first_half ::
  "('client, 'dbus, 'conn, 'msg, 'tok) capi \<Rightarrow> ('client, 'msg) event \<Rightarrow> ('conn, 'tok) daemon \<Rightarrow>
   hpc \<times> reply option \<times> ('conn, 'tok) daemon"
where
  "first_half env (CallRegister client lStrName wireActions liInterval) d =
     (let lActions = map RecoveryState_of_wire wireActions;
          lUniqueBusName = extractDbusUniqueName env client;
          lPid = queryUnixPidForBusName env (d_stub d) lUniqueBusName;
          (isOk, w) = (case cb_onRegisterService (d_stub d) of
                         Some onRegister \<Rightarrow> onRegister lStrName lActions liInterval lPid (d_sched d)
                       | None \<Rightarrow> (False, d_sched d))
      in if isOk \<and> lUniqueBusName \<noteq> []
         then (Record_peer lStrName \<lparr>uniqueBusName = lUniqueBusName, peer_pid = lPid\<rparr>, None, d\<lparr>d_sched := w\<rparr>)
         else (Free, Some (RegisterReply (if isOk then Register_OK else INVALID_NAME)), d\<lparr>d_sched := w\<rparr>))"
| "first_half env (CallUnregister client lStrName) d =
     (let (isOk, w) = (case cb_onUnregisterService (d_stub d) of
                         Some onUnregister \<Rightarrow> onUnregister lStrName (d_sched d)
                       | None \<Rightarrow> (False, d_sched d))
      in if isOk then (Forget_peer lStrName, None, d\<lparr>d_sched := w\<rparr>)
         else (Free, Some (UnregisterReply Unregister_NOT_FOUND), d\<lparr>d_sched := w\<rparr>))"
| "first_half env (CallReport client lStrName wireCurrent wireLast) d =
     (let (r, stub, w) = reportServiceState client lStrName wireCurrent wireLast (d_stub d) (d_sched d)
      in (Free, Some (QueryReply r), \<lparr>d_sched = w, d_stub = stub\<rparr>))"
| "first_half env (BusSignal msg) d =
     (let (busName, oldOwner, newOwner) = readNameOwnerChanged env msg
      in if newOwner = []
         then (case watcher_of busName (d_stub d) of
                 None \<Rightarrow> (Free, Some NoReply, d)
               | Some (key, _) \<Rightarrow>
                   (let d' = d\<lparr>d_stub := (d_stub d)\<lparr>m_ServiceToBusName :=
                                 umap_erase key (m_ServiceToBusName (d_stub d))\<rparr>\<rparr>
                    in if key \<noteq> [] then (Notify_failure key, None, d') else (Free, Some NoReply, d')))
         else (Free, Some NoReply, d))"

fun second_half :: "hpc \<Rightarrow> ('conn, 'tok) daemon \<Rightarrow> (reply \<times> ('conn, 'tok) daemon) result" where
  "second_half (Record_peer lStrName peer) d =
     Inr (RegisterReply Register_OK,
       d\<lparr>d_stub := (d_stub d)\<lparr>m_ServiceToBusName := umap_assign lStrName peer (m_ServiceToBusName (d_stub d))\<rparr>\<rparr>)"
| "second_half (Forget_peer lStrName) d =
     Inr (UnregisterReply Unregister_OK,
       d\<lparr>d_stub := (d_stub d)\<lparr>m_ServiceToBusName := umap_erase lStrName (m_ServiceToBusName (d_stub d))\<rparr>\<rparr>)"
| "second_half (Notify_failure lStrName) d =
     (case cb_onServiceFailure (d_stub d) of
        Some onFailure \<Rightarrow>
          bind_result (onFailure lStrName (d_sched d)) (\<lambda>w. Inr (NoReply, d\<lparr>d_sched := w\<rparr>))
      | None \<Rightarrow> Inr (NoReply, d))"
| "second_half Free d = Inr (NoReply, d)"

text \<open>One step; \<open>None\<close>: not enabled.\<close>

fun handler_step ::
  "('client, 'dbus, 'conn, 'msg, 'tok) capi \<Rightarrow> ('client, 'msg) handler_action \<Rightarrow> ('conn, 'tok) handlers \<Rightarrow>
   ('conn, 'tok) handlers result option"
where
  "handler_step env (Enter t e) c =
     (if h_pcs c t = Free
      then let (p, r, d) = first_half env e (h_daemon c)
           in Some (Inr (c\<lparr>h_daemon := d, h_pcs := (h_pcs c)(t := p), h_replies := (h_replies c)(t := r)\<rparr>))
      else None)"
| "handler_step env (Leave t) c =
     (if h_pcs c t = Free then None
      else Some (bind_result (second_half (h_pcs c t) (h_daemon c))
             (\<lambda>(r, d). Inr (c\<lparr>h_daemon := d, h_pcs := (h_pcs c)(t := Free),
                              h_replies := (h_replies c)(t := Some r)\<rparr>))))"

fun run_handlers ::
  "('client, 'dbus, 'conn, 'msg, 'tok) capi \<Rightarrow> ('client, 'msg) handler_action list \<Rightarrow> ('conn, 'tok) handlers \<Rightarrow>
   ('conn, 'tok) handlers result option"
where
  "run_handlers env [] c = Some (Inr c)"
| "run_handlers env (x # xs) c =
     (case handler_step env x c of
        None \<Rightarrow> None
      | Some (Inl e) \<Rightarrow> Some (Inl e)
      | Some (Inr c') \<Rightarrow> run_handlers env xs c')"

definition idle_handlers :: "('conn, 'tok) daemon \<Rightarrow> ('conn, 'tok) handlers" where
  "idle_handlers d = \<lparr>h_daemon = d, h_pcs = (\<lambda>_. Free), h_replies = (\<lambda>_. None)\<rparr>"

definition handlers_booted :: "('client, 'dbus, 'conn, 'msg, 'tok) capi \<Rightarrow> ('conn, 'tok) handlers \<Rightarrow> bool" where
  "handlers_booted env c \<longleftrightarrow> (\<exists>d. booted env d \<and> c = idle_handlers d)"

fun bounded_action :: "('client, 'msg) handler_action \<Rightarrow> bool" where
  "bounded_action (Enter t e) = bounded_event e"
| "bounded_action (Leave t) = True"

fun thread_of :: "('client, 'msg) handler_action \<Rightarrow> nat" where
  "thread_of (Enter t e) = t"
| "thread_of (Leave t) = t"

inductive handlers_trans ::
  "('client, 'dbus, 'conn, 'msg, 'tok) capi \<Rightarrow> ('conn, 'tok) handlers \<Rightarrow> ('client, 'msg) handler_action \<Rightarrow>
   ('conn, 'tok) handlers \<Rightarrow> bool" for env
where
  "bounded_action x \<Longrightarrow> handler_step env x c = Some (Inr c') \<Longrightarrow> handlers_trans env c x c'"

inductive_cases handlers_transE [elim!]: "handlers_trans env c x c'"

text \<open>All handlers run on one thread.\<close>

inductive serial_trans ::
  "('client, 'dbus, 'conn, 'msg, 'tok) capi \<Rightarrow> ('conn, 'tok) handlers \<Rightarrow> ('client, 'msg) handler_action \<Rightarrow>
   ('conn, 'tok) handlers \<Rightarrow> bool" for env
where
  "thread_of x = 0 \<Longrightarrow> handler_step env x c = Some (Inr c') \<Longrightarrow> serial_trans env c x c'"

inductive_cases serial_transE [elim!]: "serial_trans env c x c'"

section \<open>The two halves make the handler\<close>

lemma halves_make_step:
  assumes "first_half env e d = (p, r, d1)"
  shows "daemon_step env e d = (if p = Free then Inr (the r, d1) else second_half p d1)"
proof (cases e)
  case (CallRegister client n acts i)
  with assms show ?thesis
    by (auto simp: registerService_def Let_def split_beta split: if_splits)
next
  case (CallUnregister client n)
  with assms show ?thesis
    by (auto simp: unregisterService_def Let_def split_beta split: if_splits)
next
  case (CallReport client n c l)
  with assms show ?thesis by (auto simp: split_beta)
next
  case (BusSignal msg)
  with assms show ?thesis
    by (auto simp: onSignalDBusMessage_def handleNameOwnerChanged_def Let_def split_beta bind_result_def
        split: if_splits option.splits sum.splits)
qed

section \<open>One dispatching thread\<close>

text \<open>Between handlers the daemon is in a state of the atomic model; inside one, half a step on.\<close>

definition serial_ok ::
  "('client, 'dbus, 'conn, 'msg, 'tok) capi \<Rightarrow> ('conn, 'tok) handlers \<Rightarrow> bool"
where
  "serial_ok env c \<longleftrightarrow>
     (if h_pcs c 0 = Free then reachable (booted env) (daemon_trans env) (h_daemon c)
      else \<exists>d (e :: ('client, 'msg) event) r. reachable (booted env) (daemon_trans env) d
             \<and> first_half env e d = (h_pcs c 0, r, h_daemon c))"

lemma serial_step:
  assumes "serial_ok env c" and "thread_of x = 0" and "handler_step env x c = Some (Inr c')"
  shows "serial_ok env c'"
proof (cases x)
  case (Enter t e)
  with assms(2,3) have free: "h_pcs c 0 = Free" by (auto split: if_splits)
  then have d: "reachable (booted env) (daemon_trans env) (h_daemon c)" using assms(1) by (simp add: serial_ok_def)
  obtain p r d1 where half: "first_half env e (h_daemon c) = (p, r, d1)" by (rule prod_cases3)
  with assms(2,3) Enter free have c': "h_daemon c' = d1" "h_pcs c' 0 = p" by auto
  show ?thesis
  proof (cases "p = Free")
    case True
    with halves_make_step [OF half] have "daemon_trans env (h_daemon c) e d1" by (auto intro: daemon_trans.intros)
    with d c' True show ?thesis by (simp add: serial_ok_def reachable_step)
  next
    case False
    with c' half d show ?thesis unfolding serial_ok_def by auto
  qed
next
  case (Leave t)
  with assms(2,3) obtain r d1 where leave: "h_pcs c 0 \<noteq> Free"
      "second_half (h_pcs c 0) (h_daemon c) = Inr (r, d1)" "h_daemon c' = d1" "h_pcs c' 0 = Free"
    by (auto simp: bind_result_Inr_iff split: if_splits)
  with assms(1) obtain d e r1 where d: "reachable (booted env) (daemon_trans env) d"
      "first_half env e d = (h_pcs c 0, r1, h_daemon c)"
    by (auto simp: serial_ok_def)
  with halves_make_step [OF d(2)] leave have "daemon_trans env d e d1" by (auto intro: daemon_trans.intros)
  with d(1) leave show ?thesis by (simp add: serial_ok_def reachable_step)
qed

interpretation serial: transition_system "handlers_booted env" "serial_trans env" "serial_ok env" for env
proof
  show "serial_ok env c" if "handlers_booted env c" for c
    using that by (auto simp: handlers_booted_def idle_handlers_def serial_ok_def intro: reachable_init)
qed (auto dest: serial_step)

section \<open>Any number of dispatching threads\<close>

fun hpc_ok :: "hpc \<Rightarrow> bool" where
  "hpc_ok (Record_peer n peer) = (n \<in> catalogue_names \<and> uniqueBusName peer \<noteq> [])"
| "hpc_ok _ = True"

definition parts_safe :: "('conn, 'tok) daemon \<Rightarrow> bool" where
  "parts_safe d \<longleftrightarrow>
     scheduler_wired (d_stub d) \<and> sched_safe (d_sched d) \<and>
     watch_ok (\<lambda>n. n \<in> catalogue_names) (m_ServiceToBusName (d_stub d))"

definition handlers_safe :: "('conn, 'tok) handlers \<Rightarrow> bool" where
  "handlers_safe c \<longleftrightarrow> parts_safe (h_daemon c) \<and> (\<forall>t. hpc_ok (h_pcs c t))"

lemma first_half_safe:
  assumes "parts_safe d" and "bounded_event e" and "first_half env e d = (p, r, d')"
  shows "parts_safe d' \<and> hpc_ok p"
proof (cases e)
  case (CallRegister client n acts i)
  let ?pid = "queryUnixPidForBusName env (d_stub d) (extractDbusUniqueName env client)"
  let ?r = "onRegisterService n (map RecoveryState_of_wire acts) i ?pid (d_sched d)"
  have "sched_safe (snd ?r)"
    using safe_policy.inv_reg [of "d_sched d"] assms(1,2) CallRegister
    by (simp add: parts_safe_def policy_safe_bounded)
  moreover have "n \<in> catalogue_names" if "fst ?r"
    using register_accepted_name [OF sched_safe_ok that] assms(1) by (simp add: parts_safe_def)
  ultimately show ?thesis
    using assms(1,3) CallRegister
    by (auto simp: parts_safe_def wired_def Let_def split_beta split: if_splits)
next
  case (CallUnregister client n)
  with assms safe_policy.inv_unreg [of "d_sched d" n] show ?thesis
    by (auto simp: parts_safe_def wired_def Let_def split_beta split: if_splits)
next
  case (CallReport client n c l)
  with assms safe_policy.inv_rep [of "d_sched d"] show ?thesis
    by (auto simp: parts_safe_def wired_def reportServiceState_def Let_def split_beta split: if_splits)
next
  case (BusSignal msg)
  with assms show ?thesis
    by (auto simp: parts_safe_def wired_def Let_def split_beta intro!: watch_ok_erase
        split: if_splits option.splits)
qed

lemma second_half_safe:
  assumes "parts_safe d" and "hpc_ok p"
  shows "\<exists>r d'. second_half p d = Inr (r, d') \<and> parts_safe d'"
proof (cases p)
  case (Record_peer n peer)
  with assms show ?thesis
    by (auto simp: parts_safe_def wired_def intro!: watch_ok_assign dest: catalogue_names_nonempty)
next
  case (Forget_peer n)
  with assms show ?thesis by (auto simp: parts_safe_def wired_def intro!: watch_ok_erase)
next
  case (Notify_failure n)
  from assms(1) obtain st where "onServiceFailure n (d_sched d) = Inr st" "sched_safe st"
    unfolding parts_safe_def by (blast elim: failure_returns)
  with assms Notify_failure show ?thesis by (auto simp: parts_safe_def wired_def)
qed (use assms in auto)

lemma handler_step_safe:
  assumes "handlers_safe c" and "bounded_action x" and "handler_step env x c = Some r"
  shows "\<exists>c'. r = Inr c' \<and> handlers_safe c'"
proof (cases x)
  case (Enter t e)
  obtain p rr d where half: "first_half env e (h_daemon c) = (p, rr, d)" by (rule prod_cases3)
  with assms Enter first_half_safe [OF _ _ half] show ?thesis
    by (auto simp: handlers_safe_def split: if_splits)
next
  case (Leave t)
  from assms(1) obtain rr d where "second_half (h_pcs c t) (h_daemon c) = Inr (rr, d)" "parts_safe d"
    using second_half_safe [of "h_daemon c" "h_pcs c t"] by (auto simp: handlers_safe_def)
  with assms Leave show ?thesis by (auto simp: handlers_safe_def split: if_splits)
qed

lemma boot_handlers_safe: "handlers_booted env c \<Longrightarrow> handlers_safe c"
proof (unfold handlers_booted_def, elim exE conjE)
  fix d
  assume d: "booted env d" and c: "c = idle_handlers d"
  from d have "daemon_safe d" using daemon_boot_safe [of env] by (simp add: booted_def)
  moreover from this have "n \<in> catalogue_names" if "service_online (d_sched d) n" for n
    using that registered_name [OF sched_safe_ok, of "d_sched d" n]
    by (auto simp: daemon_safe_def service_online_def split: option.splits)
  ultimately show "handlers_safe c"
    by (auto simp: handlers_safe_def parts_safe_def daemon_safe_def c idle_handlers_def elim: watch_ok_mono)
qed

interpretation dispatchers: transition_system "handlers_booted env" "handlers_trans env" handlers_safe for env
  by unfold_locales (auto intro: boot_handlers_safe dest: handler_step_safe)

section \<open>Schedules\<close>

lemma run_handlers_step:
  "handler_step env x c = Some (Inr c') \<Longrightarrow> run_handlers env (x # xs) c = run_handlers env xs c'"
  by simp

text \<open>A schedule of steps that a machine allows leads from reachable to reachable states.\<close>

lemma run_handlers_reachable:
  assumes "run_handlers env xs c = Some (Inr c')" and "reachable init step c"
    and "\<And>x c c'. x \<in> set xs \<Longrightarrow> handler_step env x c = Some (Inr c') \<Longrightarrow> step c x c'"
  shows "reachable init step c'"
  using assms
proof (induction xs arbitrary: c)
  case (Cons x xs)
  from Cons.prems(1) obtain c1 where c1: "handler_step env x c = Some (Inr c1)" "run_handlers env xs c1 = Some (Inr c')"
    by (auto simp del: handler_step.simps split: option.splits sum.splits)
  show ?case
    by (rule Cons.IH [OF c1(2) reachable_step [OF Cons.prems(2) Cons.prems(3) [OF _ c1(1)]]])
      (auto intro: Cons.prems(3))
qed simp

definition demo_handlers :: "(string, string \<times> string \<times> string) handler_action list \<Rightarrow> (unit, nat) handlers" where
  "demo_handlers xs = projr (the (run_handlers demo_capi xs (idle_handlers (snd (daemon_boot demo_capi)))))"

lemma demo_handlers_reachable:
  assumes "case run_handlers demo_capi xs (idle_handlers (snd (daemon_boot demo_capi))) of Some (Inr c) \<Rightarrow> True | _ \<Rightarrow> False"
    and "\<And>x c c'. x \<in> set xs \<Longrightarrow> handler_step demo_capi x c = Some (Inr c') \<Longrightarrow> step c x c'"
  shows "reachable (handlers_booted demo_capi) step (demo_handlers xs)"
proof -
  from assms(1) obtain c where run: "run_handlers demo_capi xs (idle_handlers (snd (daemon_boot demo_capi))) = Some (Inr c)"
    by (auto split: option.splits sum.splits)
  have "handlers_booted demo_capi (idle_handlers (snd (daemon_boot demo_capi)))"
    unfolding handlers_booted_def by (rule exI [of _ "snd (daemon_boot demo_capi)"]) (simp add: demo_booted)
  then have "reachable (handlers_booted demo_capi) step (idle_handlers (snd (daemon_boot demo_capi)))"
    by (rule reachable_init)
  from run_handlers_reachable [OF run this assms(2)] run show ?thesis by (simp add: demo_handlers_def)
qed

section \<open>Properties\<close>

text \<open>
  C8: with one dispatching thread the split handlers are the atomic ones. Whenever that thread is
  between handlers, the daemon is in a state that the atomic model reaches, so every watched
  service is online.
\<close>

theorem serial_handlers_refine_daemon:
  fixes env :: "('client, 'dbus, 'conn, 'msg, 'tok) capi"
  assumes "reachable (handlers_booted env) (serial_trans env) c" and "h_pcs c 0 = Free"
  shows "reachable (booted env) (daemon_trans env) (h_daemon c)
    \<and> (\<forall>n peer. lookup_peer (d_stub (h_daemon c)) n = Some peer \<longrightarrow> service_online (d_sched (h_daemon c)) n)"
proof -
  have r: "reachable (booted env) (daemon_trans env) (h_daemon c)"
    using serial.reachable_inv [OF assms(1)] assms(2) by (simp add: serial_ok_def)
  from daemon_any.reachable_inv [OF this] show ?thesis
    using r by (auto simp: daemon_ok_def dest: watch_okD)
qed

theorem serial_handlers_refine_daemon_witness:
  "reachable (booted demo_capi) (daemon_trans demo_capi) (h_daemon (demo_handlers [Enter 0 (CallRegister (Some '':1.7'') ''AppA'' [0] 5), Leave 0]))
    \<and> service_online (d_sched (h_daemon (demo_handlers [Enter 0 (CallRegister (Some '':1.7'') ''AppA'' [0] 5), Leave 0]))) ''AppA''"
proof -
  let ?c = "demo_handlers [Enter 0 (CallRegister (Some '':1.7'') ''AppA'' [0] 5), Leave 0]"
  have r: "reachable (handlers_booted demo_capi) (serial_trans demo_capi) ?c"
    by (rule demo_handlers_reachable, code_simp) (auto simp del: handler_step.simps intro!: serial_trans.intros)
  have free: "h_pcs ?c 0 = Free" by code_simp
  have look: "lookup_peer (d_stub (h_daemon ?c)) ''AppA'' = Some \<lparr>uniqueBusName = '':1.7'', peer_pid = 4242\<rparr>"
    by code_simp
  from serial_handlers_refine_daemon [OF r free] look show ?thesis by blast
qed

text \<open>What the halves do in a state of the wired daemon.\<close>

abbreviation accepted ::
  "nat \<Rightarrow> string \<Rightarrow> string \<Rightarrow> pid_t \<Rightarrow> CRecoveryScheduler \<Rightarrow> ('conn, 'tok) handlers \<Rightarrow> ('conn, 'tok) handlers"
where
  "accepted t n b p w c \<equiv>
     c\<lparr>h_daemon := (h_daemon c)\<lparr>d_sched := w\<rparr>,
       h_pcs := (h_pcs c)(t := Record_peer n \<lparr>uniqueBusName = b, peer_pid = p\<rparr>),
       h_replies := (h_replies c)(t := None)\<rparr>"

lemma enter_register:
  assumes "handlers_safe c" and "h_pcs c t = Free" and "n \<in> catalogue_names"
    and "extractDbusUniqueName env client = b" and "b \<noteq> []"
  obtains w p where "handler_step env (Enter t (CallRegister client n acts i)) c = Some (Inr (accepted t n b p w c))"
    and "\<And>xs. run_handlers env (Enter t (CallRegister client n acts i) # xs) c = run_handlers env xs (accepted t n b p w c)"
    and "service_online w n"
proof -
  let ?p = "queryUnixPidForBusName env (d_stub (h_daemon c)) b"
  let ?r = "onRegisterService n (map RecoveryState_of_wire acts) i ?p (d_sched (h_daemon c))"
  have "fst ?r" using assms(3) by (simp add: register_result)
  with assms have "handler_step env (Enter t (CallRegister client n acts i)) c =
      Some (Inr (accepted t n b ?p (snd ?r) c))"
    by (auto simp: handlers_safe_def parts_safe_def wired_def Let_def split_beta)
  moreover have "service_online (snd ?r) n" using assms(3) by (simp add: service_online_register)
  ultimately show thesis using that run_handlers_step by blast
qed

text \<open>
  C11: a crash during registration is missed (scheduler calls as single steps, policies of at most
  128 actions so far). The peer that registers a service dies after the
  scheduler has accepted it and before the stub has recorded its bus name, and another thread
  handles the loss in between. The loss is spent on a name nobody watches; then the name is
  recorded, and the dead service is online, watched under a bus name that never changes owner
  again.
\<close>

theorem crash_during_registration_missed:
  assumes "reachable (handlers_booted env) (handlers_trans env) c"
    and "h_pcs c t = Free" and "h_pcs c u = Free" and "t \<noteq> u" and "n \<in> catalogue_names"
    and "extractDbusUniqueName env client = b" and "b \<noteq> []"
    and "readNameOwnerChanged env msg = (b, old, [])" and "watcher_of b (d_stub (h_daemon c)) = None"
  shows "\<exists>c' peer. run_handlers env [Enter t (CallRegister client n acts i), Enter u (BusSignal msg), Leave t] c = Some (Inr c')
    \<and> h_replies c' t = Some (RegisterReply Register_OK) \<and> h_pcs c' = h_pcs c
    \<and> service_online (d_sched (h_daemon c')) n
    \<and> lookup_peer (d_stub (h_daemon c')) n = Some peer \<and> uniqueBusName peer = b"
proof -
  obtain w p where run: "\<And>xs. run_handlers env (Enter t (CallRegister client n acts i) # xs) c =
      run_handlers env xs (accepted t n b p w c)" and on: "service_online w n"
    using enter_register [OF dispatchers.reachable_inv [OF assms(1)] assms(2,5-7)] by blast
  show ?thesis
    unfolding run using assms on by (simp add: um.lookup_assign fun_upd_idem fun_upd_twist)
qed

theorem crash_during_registration_missed_witness:
  "\<exists>c' peer. run_handlers demo_capi [Enter 7 (CallRegister (Some '':1.7'') ''AppA'' [0] 5),
       Enter 8 (BusSignal ('':1.7'', '':1.7'', [])), Leave 7] (demo_handlers []) = Some (Inr c')
    \<and> service_online (d_sched (h_daemon c')) ''AppA''
    \<and> lookup_peer (d_stub (h_daemon c')) ''AppA'' = Some peer \<and> uniqueBusName peer = '':1.7''"
proof -
  have r: "reachable (handlers_booted demo_capi) (handlers_trans demo_capi) (demo_handlers [])"
    by (rule demo_handlers_reachable, code_simp) simp
  have "h_pcs (demo_handlers []) 7 = Free" "h_pcs (demo_handlers []) 8 = Free" "''AppA'' \<in> catalogue_names"
    "extractDbusUniqueName demo_capi (Some '':1.7'') = '':1.7''"
    "readNameOwnerChanged demo_capi ('':1.7'', '':1.7'', []) = ('':1.7'', '':1.7'', [])"
    "watcher_of '':1.7'' (d_stub (h_daemon (demo_handlers []))) = None"
    by code_simp+
  with crash_during_registration_missed [OF r, of 7 8 "''AppA''" "Some '':1.7''" "'':1.7''" "('':1.7'', '':1.7'', [])"]
  show ?thesis by (simp del: run_handlers.simps handler_step.simps) blast
qed

text \<open>
  C12: a late crash hits the restarted service (scheduler calls as single steps, policies of at most
  128 actions). The stub has taken the lost peer out of the watch
  table and has not yet told the scheduler when the restarted service registers from its new
  connection on another thread. The client is answered \<^verbatim>\<open>OK\<close> and is watched, and then the old
  crash takes the running service offline.
\<close>

theorem late_crash_hits_restarted_service:
  assumes "reachable (handlers_booted env) (handlers_trans env) c"
    and "h_pcs c t = Free" and "h_pcs c u = Free" and "t \<noteq> u"
    and "readNameOwnerChanged env msg = (b, old, [])" and "watcher_of b (d_stub (h_daemon c)) = Some (n, peer)"
    and "extractDbusUniqueName env client = b'" and "b' \<noteq> []" and "length acts \<le> 128"
  shows "\<exists>c' peer'. run_handlers env [Enter t (BusSignal msg), Enter u (CallRegister client n acts i), Leave u, Leave t] c = Some (Inr c')
    \<and> h_replies c' u = Some (RegisterReply Register_OK) \<and> h_pcs c' = h_pcs c
    \<and> \<not> service_online (d_sched (h_daemon c')) n
    \<and> lookup_peer (d_stub (h_daemon c')) n = Some peer' \<and> uniqueBusName peer' = b'"
proof -
  have safe: "handlers_safe c" using assms(1) by (rule dispatchers.reachable_inv)
  then have watch: "watch_ok (\<lambda>n. n \<in> catalogue_names) (m_ServiceToBusName (d_stub (h_daemon c)))"
    by (simp add: handlers_safe_def parts_safe_def)
  have n: "n \<in> catalogue_names" "n \<noteq> []"
    using watch_okD [OF watch] watcher_of_Some [OF watch_ok_umap_ok [OF watch] assms(6)] by auto
  let ?stub = "(d_stub (h_daemon c))\<lparr>m_ServiceToBusName := umap_erase n (m_ServiceToBusName (d_stub (h_daemon c)))\<rparr>"
  let ?c1 = "c\<lparr>h_daemon := (h_daemon c)\<lparr>d_stub := ?stub\<rparr>, h_pcs := (h_pcs c)(t := Notify_failure n),
    h_replies := (h_replies c)(t := None)\<rparr>"
  have step: "handler_step env (Enter t (BusSignal msg)) c = Some (Inr ?c1)" using assms n by simp
  have safe1: "handlers_safe ?c1" using handler_step_safe [OF safe _ step] by simp
  have free: "h_pcs ?c1 u = Free" using assms by simp
  obtain w p where enter: "handler_step env (Enter u (CallRegister client n acts i)) ?c1 = Some (Inr (accepted u n b' p w ?c1))"
      "\<And>xs. run_handlers env (Enter u (CallRegister client n acts i) # xs) ?c1 = run_handlers env xs (accepted u n b' p w ?c1)"
      "service_online w n"
    using enter_register [OF safe1 free n(1) assms(7,8)] by blast
  have "sched_safe w"
    using handler_step_safe [OF safe1 _ enter(1)] assms(9) by (simp add: handlers_safe_def parts_safe_def)
  then obtain st where st: "onServiceFailure n w = Inr st"
      "lookup_service st = (lookup_service w)(n := map_option failed_info (lookup_service w n))"
    by (blast elim: failure_returns)
  then have off: "\<not> service_online st n" by (auto simp: service_online_def failed_info_def Let_def split: option.splits)
  have "run_handlers env [Enter t (BusSignal msg), Enter u (CallRegister client n acts i), Leave u, Leave t] c =
      run_handlers env [Leave u, Leave t] (accepted u n b' p w ?c1)"
    unfolding enter(2) [symmetric] using step by (rule run_handlers_step)
  moreover have "cb_onServiceFailure (d_stub (h_daemon c)) = Some onServiceFailure"
    using safe by (simp add: handlers_safe_def parts_safe_def wired_def)
  ultimately show ?thesis
    using assms(2-4) st(1) off by (simp add: um.lookup_assign fun_upd_idem fun_upd_twist)
qed

theorem late_crash_hits_restarted_service_witness:
  "\<exists>c' peer'. run_handlers demo_capi [Enter 7 (BusSignal ('':1.7'', '':1.7'', [])),
       Enter 8 (CallRegister (Some '':1.8'') ''AppA'' [0] 5), Leave 8, Leave 7]
       (demo_handlers [Enter 7 (CallRegister (Some '':1.7'') ''AppA'' [0] 5), Leave 7]) = Some (Inr c')
    \<and> \<not> service_online (d_sched (h_daemon c')) ''AppA''
    \<and> lookup_peer (d_stub (h_daemon c')) ''AppA'' = Some peer' \<and> uniqueBusName peer' = '':1.8''"
proof -
  let ?c = "demo_handlers [Enter 7 (CallRegister (Some '':1.7'') ''AppA'' [0] 5), Leave 7]"
  have r: "reachable (handlers_booted demo_capi) (handlers_trans demo_capi) ?c"
    by (rule demo_handlers_reachable, code_simp) (auto simp del: handler_step.simps intro!: handlers_trans.intros)
  have "h_pcs ?c 7 = Free" "h_pcs ?c 8 = Free" "extractDbusUniqueName demo_capi (Some '':1.8'') = '':1.8''"
    "readNameOwnerChanged demo_capi ('':1.7'', '':1.7'', []) = ('':1.7'', '':1.7'', [])"
    "watcher_of '':1.7'' (d_stub (h_daemon ?c)) = Some (''AppA'', \<lparr>uniqueBusName = '':1.7'', peer_pid = 4242\<rparr>)"
    by code_simp+
  with late_crash_hits_restarted_service [OF r, of 7 8 "('':1.7'', '':1.7'', [])" "'':1.7''" "'':1.7''" "''AppA''"
      "\<lparr>uniqueBusName = '':1.7'', peer_pid = 4242\<rparr>" "Some '':1.8''" "'':1.8''" "[0]" 5]
  show ?thesis by (simp del: run_handlers.simps handler_step.simps) blast
qed

text \<open>
  C13: a service that registers while its old instance is being unregistered is never watched
  (scheduler calls as single steps, policies of at most 128 actions so far). The scheduler has removed the old entry and the stub has not, when the new registration runs to its
  end on another thread; the unregistration then erases the new watch entry. Both clients are
  answered \<^verbatim>\<open>OK\<close>, the service is online, and no loss of its connection will be noticed.
\<close>

theorem registration_during_unregistration_unwatched:
  assumes "reachable (handlers_booted env) (handlers_trans env) c"
    and "h_pcs c t = Free" and "h_pcs c u = Free" and "t \<noteq> u"
    and "lookup_service (d_sched (h_daemon c)) n \<noteq> None"
    and "extractDbusUniqueName env client = b" and "b \<noteq> []"
  shows "\<exists>c'. run_handlers env [Enter t (CallUnregister client0 n), Enter u (CallRegister client n acts i), Leave u, Leave t] c = Some (Inr c')
    \<and> h_replies c' t = Some (UnregisterReply Unregister_OK) \<and> h_replies c' u = Some (RegisterReply Register_OK)
    \<and> h_pcs c' = h_pcs c \<and> service_online (d_sched (h_daemon c')) n \<and> lookup_peer (d_stub (h_daemon c')) n = None"
proof -
  have safe: "handlers_safe c" using assms(1) by (rule dispatchers.reachable_inv)
  then have ok: "sched_ok (d_sched (h_daemon c))" by (simp add: handlers_safe_def parts_safe_def sched_safe_ok)
  from assms(5) have n: "n \<in> catalogue_names" using registered_name [OF ok] by blast
  let ?st = "snd (onUnregisterService n (d_sched (h_daemon c)))"
  let ?c1 = "c\<lparr>h_daemon := (h_daemon c)\<lparr>d_sched := ?st\<rparr>, h_pcs := (h_pcs c)(t := Forget_peer n),
    h_replies := (h_replies c)(t := None)\<rparr>"
  have "fst (onUnregisterService n (d_sched (h_daemon c)))" using assms(5) by (auto simp: unregister_eq [OF ok])
  with safe assms(2) have step: "handler_step env (Enter t (CallUnregister client0 n)) c = Some (Inr ?c1)"
    by (auto simp: handlers_safe_def parts_safe_def wired_def Let_def split_beta)
  have safe1: "handlers_safe ?c1" using handler_step_safe [OF safe _ step] by simp
  have free: "h_pcs ?c1 u = Free" using assms by simp
  obtain w p where enter:
      "\<And>xs. run_handlers env (Enter u (CallRegister client n acts i) # xs) ?c1 = run_handlers env xs (accepted u n b p w ?c1)"
      "service_online w n"
    using enter_register [OF safe1 free n assms(6,7)] by blast
  have "run_handlers env [Enter t (CallUnregister client0 n), Enter u (CallRegister client n acts i), Leave u, Leave t] c =
      run_handlers env [Leave u, Leave t] (accepted u n b p w ?c1)"
    unfolding enter(1) [symmetric] using step by (rule run_handlers_step)
  with assms(2-4) enter(2) show ?thesis
    by (simp add: um.lookup_assign um.lookup_erase fun_upd_idem fun_upd_twist)
qed

theorem registration_during_unregistration_unwatched_witness:
  "\<exists>c'. run_handlers demo_capi [Enter 7 (CallUnregister (Some '':1.7'') ''AppA''),
       Enter 8 (CallRegister (Some '':1.8'') ''AppA'' [0] 5), Leave 8, Leave 7]
       (demo_handlers [Enter 7 (CallRegister (Some '':1.7'') ''AppA'' [0] 5), Leave 7]) = Some (Inr c')
    \<and> service_online (d_sched (h_daemon c')) ''AppA'' \<and> lookup_peer (d_stub (h_daemon c')) ''AppA'' = None"
proof -
  let ?c = "demo_handlers [Enter 7 (CallRegister (Some '':1.7'') ''AppA'' [0] 5), Leave 7]"
  have r: "reachable (handlers_booted demo_capi) (handlers_trans demo_capi) ?c"
    by (rule demo_handlers_reachable, code_simp) (auto simp del: handler_step.simps intro!: handlers_trans.intros)
  have "h_pcs ?c 7 = Free" "h_pcs ?c 8 = Free" "extractDbusUniqueName demo_capi (Some '':1.8'') = '':1.8''"
    "lookup_service (d_sched (h_daemon ?c)) ''AppA'' \<noteq> None"
    by code_simp+
  with registration_during_unregistration_unwatched [OF r, of 7 8 "''AppA''" "Some '':1.8''" "'':1.8''" "Some '':1.7''" "[0]" 5]
  show ?thesis by (simp del: run_handlers.simps handler_step.simps) blast
qed

end
