(* ===== verification/Decimal.thy ===== *)
theory Decimal
  imports SRS_Prelude
begin

text \<open>
  Decimal numerals as \<^verbatim>\<open>std::ostream\<close> writes and \<^verbatim>\<open>std::istream\<close> reads them, the field width
  and fill of \<^verbatim>\<open>std::setw\<close> and \<^verbatim>\<open>std::setfill\<close>, and the facts the logger and the console
  share about them.
\<close>

section \<open>Digits\<close>

definition is_digit :: "char \<Rightarrow> bool" where
  "is_digit c \<longleftrightarrow> 48 \<le> (of_char c :: nat) \<and> (of_char c :: nat) \<le> 57"

definition digit_val :: "char \<Rightarrow> nat" where
  "digit_val c = of_char c - 48"

fun read_nat :: "nat \<Rightarrow> string \<Rightarrow> nat" where
  "read_nat acc [] = acc"
| "read_nat acc (c # cs) = read_nat (acc * 10 + digit_val c) cs"

definition setw_right :: "nat \<Rightarrow> char \<Rightarrow> string \<Rightarrow> string" where
  "setw_right w fill s = replicate (w - length s) fill @ s"

definition setw_left :: "nat \<Rightarrow> char \<Rightarrow> string \<Rightarrow> string" where
  "setw_left w fill s = s @ replicate (w - length s) fill"

section \<open>Facts\<close>

lemma of_char_digit: "d < 10 \<Longrightarrow> (of_char (digit_char d) :: nat) = 48 + d"
  by (simp add: digit_char_def of_char_of)

lemma is_digit_digit_char: "d < 10 \<Longrightarrow> is_digit (digit_char d)"
  by (simp add: is_digit_def of_char_digit)

lemma digit_val_digit_char: "d < 10 \<Longrightarrow> digit_val (digit_char d) = d"
  by (simp add: digit_val_def of_char_digit)

lemma read_nat_append: "read_nat acc (xs @ ys) = read_nat (read_nat acc xs) ys"
  by (induction acc xs rule: read_nat.induct) simp_all

lemma show_nat_digits: "list_all is_digit (show_nat n)"
  by (induction n rule: show_nat.induct) (subst show_nat.simps, simp add: is_digit_digit_char)

lemma show_nat_nonempty: "show_nat n \<noteq> []"
  by (subst show_nat.simps) simp

text \<open>Reading what was written gives the number back.\<close>

lemma read_nat_show_nat: "read_nat 0 (show_nat n) = n"
  by (induction n rule: show_nat.induct)
    (subst show_nat.simps, simp add: read_nat_append digit_val_digit_char)

lemma show_nat_length: "n < 10 ^ Suc k \<Longrightarrow> length (show_nat n) \<le> Suc k"
proof (induction k arbitrary: n)
  case 0
  then show ?case by (subst show_nat.simps) simp
next
  case (Suc k)
  then have "n div 10 < 10 ^ Suc k" by (simp add: div_less_iff_less_mult)
  from Suc.IH [OF this] show ?case by (subst show_nat.simps) simp
qed

lemma show_nat_length_ge: "10 ^ k \<le> n \<Longrightarrow> Suc k \<le> length (show_nat n)"
proof (induction k arbitrary: n)
  case 0
  then show ?case using show_nat_nonempty [of n] by (cases "show_nat n") simp_all
next
  case (Suc k)
  then have "10 ^ k \<le> n div 10" by (simp add: less_eq_div_iff_mult_less_eq)
  moreover have "10 \<le> n" using Suc.prems by (rule order_trans [rotated]) simp
  ultimately show ?case using Suc.IH [of "n div 10"] by (subst show_nat.simps) simp
qed

lemma show_int_nonneg: "0 \<le> i \<Longrightarrow> show_int i = show_nat (nat i)"
  by (simp add: show_int_def)

lemma setw_right_length [simp]: "length (setw_right w fill s) = max w (length s)"
  by (simp add: setw_right_def max_def)

lemma setw_left_length [simp]: "length (setw_left w fill s) = max w (length s)"
  by (simp add: setw_left_def max_def)

end
