(* ===== verification/Logger.thy ===== *)
theory Logger
  imports Decimal "HOL-Library.Sublist"
begin

text \<open>
  The DLT-styled logger, \<^verbatim>\<open>lib_srs/inc/Logger.hpp\<close>: the severity ladder, the runtime threshold
  of the \<^verbatim>\<open>LOG_*\<close> macros and the layout of a log line. What the operating system supplies to
  one call (local time, microseconds since the epoch, thread id) is the record \<open>log_context\<close>;
  a call returns the bytes it sends to \<^verbatim>\<open>stdout\<close>.
\<close>

section \<open>Severities\<close>

text \<open>A \<^verbatim>\<open>LogLevel\<close> is an 8-bit enumeration; values without an enumerator are \<open>Level\<close>.\<close>

datatype LogLevel = TRACE | DEBUG | INFO | WARN | ERROR | FATAL | Level u8

fun level_value :: "LogLevel \<Rightarrow> u8" where
  "level_value TRACE = 0"
| "level_value DEBUG = 1"
| "level_value INFO = 2"
| "level_value WARN = 3"
| "level_value ERROR = 4"
| "level_value FATAL = 5"
| "level_value (Level w) = w"

record Logger =
  threshold :: LogLevel
  useColor :: bool

text \<open>The function-local statics before any reassignment; the colour default is \<^verbatim>\<open>isatty\<close>'s.\<close>

definition default_logger :: "bool \<Rightarrow> Logger" where
  "default_logger isatty = \<lparr>threshold = TRACE, useColor = isatty\<rparr>"

section \<open>One line\<close>

record tm =
  tm_year :: int   \<comment> \<open>years since 1900\<close>
  tm_mon :: nat    \<comment> \<open>0 to 11\<close>
  tm_mday :: nat
  tm_hour :: nat
  tm_min :: nat
  tm_sec :: nat

record log_context =
  tmv :: tm
  epoch_us :: int
  tid :: nat

text \<open>\<^verbatim>\<open>std::put_time\<close> with \<^verbatim>\<open>%Y-%m-%d %H:%M:%S\<close>, and the truncating \<^verbatim>\<open>%\<close> of durations.\<close>

definition two_digits :: "nat \<Rightarrow> string" where
  "two_digits n = setw_right 2 CHR ''0'' (show_nat n)"

definition put_time :: "tm \<Rightarrow> string" where
  "put_time t =
     show_int (tm_year t + 1900) @ ''-'' @ two_digits (tm_mon t + 1) @ ''-'' @ two_digits (tm_mday t) @
     '' '' @ two_digits (tm_hour t) @ '':'' @ two_digits (tm_min t) @ '':'' @ two_digits (tm_sec t)"

definition micros :: "int \<Rightarrow> int" where
  "micros us = sgn us * (\<bar>us\<bar> mod 1000000)"

definition ESC :: char where "ESC = CHR 0x1B"

text \<open>The switch over the level; the symbols are the UTF-8 bytes of the universal character names.\<close>

fun lvlStr :: "LogLevel \<Rightarrow> string" where
  "lvlStr TRACE = ''TRC''"
| "lvlStr DEBUG = ''DBG''"
| "lvlStr INFO = ''INF''"
| "lvlStr WARN = ''WRN''"
| "lvlStr ERROR = ''ERR''"
| "lvlStr FATAL = ''FAT''"
| "lvlStr (Level w) = ''???''"

fun sym :: "LogLevel \<Rightarrow> string" where
  "sym TRACE = [CHR 0xE2, CHR 0x96, CHR 0xAB]"
| "sym DEBUG = [CHR 0xE2, CHR 0x9A, CHR 0x99]"
| "sym INFO = [CHR 0xE2, CHR 0x84, CHR 0xB9]"
| "sym WARN = [CHR 0xE2, CHR 0x9A, CHR 0xA0]"
| "sym ERROR = [CHR 0xE2, CHR 0x9C, CHR 0x98]"
| "sym FATAL = [CHR 0xE2, CHR 0x98, CHR 0xA0]"
| "sym (Level w) = '' ''"

fun color :: "LogLevel \<Rightarrow> string" where
  "color TRACE = ESC # ''[90m''"
| "color DEBUG = ESC # ''[36m''"
| "color INFO = ESC # ''[32m''"
| "color WARN = ESC # ''[33m''"
| "color ERROR = ESC # ''[31m''"
| "color FATAL = ESC # ''[1;31m''"
| "color (Level w) = ''''"

definition reset :: string where "reset = ESC # ''[0m''"

definition or_default :: "string \<Rightarrow> string option \<Rightarrow> string" where
  "or_default s p = (case p of None \<Rightarrow> s | Some x \<Rightarrow> x)"

definition Logger_write ::
  "Logger \<Rightarrow> log_context \<Rightarrow> LogLevel \<Rightarrow> string option \<Rightarrow> string option \<Rightarrow> string option \<Rightarrow> int \<Rightarrow> string \<Rightarrow> string"
where
  "Logger_write logger ctx lvl apid ctid func line msg =
     (let tty = useColor logger
      in (if tty then color lvl else '''')
         @ put_time (tmv ctx)
         @ ''.'' @ setw_right 6 CHR ''0'' (show_int (micros (epoch_us ctx)))
         @ '' [t'' @ setw_right 6 CHR '' '' (show_nat (tid ctx)) @ '']''
         @ '' '' @ lvlStr lvl
         @ '' '' @ sym lvl
         @ '' ['' @ setw_left 4 CHR '' '' (or_default ''    '' apid) @ '']''
         @ '' ['' @ setw_left 4 CHR '' '' (or_default ''    '' ctid) @ '']''
         @ '' {'' @ or_default ''?'' func @ '':'' @ show_int line @ ''} ''
         @ msg
         @ (if tty then reset else '''')
         @ [CHR 0x0A])"

section \<open>The macros\<close>

text \<open>A use of a \<^verbatim>\<open>LOG_*\<close> macro: its level and arguments, with \<^verbatim>\<open>__func__\<close> and \<^verbatim>\<open>__LINE__\<close>.\<close>

record log_use =
  u_lvl :: LogLevel
  u_apid :: string
  u_ctid :: string
  u_func :: string
  u_line :: int
  u_expr :: string

definition SRS_LOG :: "Logger \<Rightarrow> log_context \<Rightarrow> log_use \<Rightarrow> string" where
  "SRS_LOG logger ctx u =
     (if level_value (u_lvl u) \<ge> level_value (threshold logger)
      then Logger_write logger ctx (u_lvl u) (Some (u_apid u)) (Some (u_ctid u)) (Some (u_func u)) (u_line u) (u_expr u)
      else [])"

definition LOG_TRACE :: "string \<Rightarrow> string \<Rightarrow> string \<Rightarrow> int \<Rightarrow> string \<Rightarrow> log_use" where
  "LOG_TRACE apid ctid func line expr = \<lparr>u_lvl = TRACE, u_apid = apid, u_ctid = ctid, u_func = func, u_line = line, u_expr = expr\<rparr>"

definition LOG_DEBUG :: "string \<Rightarrow> string \<Rightarrow> string \<Rightarrow> int \<Rightarrow> string \<Rightarrow> log_use" where
  "LOG_DEBUG apid ctid func line expr = \<lparr>u_lvl = DEBUG, u_apid = apid, u_ctid = ctid, u_func = func, u_line = line, u_expr = expr\<rparr>"

definition LOG_INFO :: "string \<Rightarrow> string \<Rightarrow> string \<Rightarrow> int \<Rightarrow> string \<Rightarrow> log_use" where
  "LOG_INFO apid ctid func line expr = \<lparr>u_lvl = INFO, u_apid = apid, u_ctid = ctid, u_func = func, u_line = line, u_expr = expr\<rparr>"

definition LOG_WARN :: "string \<Rightarrow> string \<Rightarrow> string \<Rightarrow> int \<Rightarrow> string \<Rightarrow> log_use" where
  "LOG_WARN apid ctid func line expr = \<lparr>u_lvl = WARN, u_apid = apid, u_ctid = ctid, u_func = func, u_line = line, u_expr = expr\<rparr>"

definition LOG_ERROR :: "string \<Rightarrow> string \<Rightarrow> string \<Rightarrow> int \<Rightarrow> string \<Rightarrow> log_use" where
  "LOG_ERROR apid ctid func line expr = \<lparr>u_lvl = ERROR, u_apid = apid, u_ctid = ctid, u_func = func, u_line = line, u_expr = expr\<rparr>"

definition LOG_FATAL :: "string \<Rightarrow> string \<Rightarrow> string \<Rightarrow> int \<Rightarrow> string \<Rightarrow> log_use" where
  "LOG_FATAL apid ctid func line expr = \<lparr>u_lvl = FATAL, u_apid = apid, u_ctid = ctid, u_func = func, u_line = line, u_expr = expr\<rparr>"

lemmas log_macros = LOG_TRACE_def LOG_DEBUG_def LOG_INFO_def LOG_WARN_def LOG_ERROR_def LOG_FATAL_def

text \<open>The log of a run: one line per use that passes, in order.\<close>

definition log_lines :: "Logger \<Rightarrow> (log_context \<times> log_use) list \<Rightarrow> string list" where
  "log_lines logger uses = filter (\<lambda>l. l \<noteq> []) (map (\<lambda>(ctx, u). SRS_LOG logger ctx u) uses)"

section \<open>Auxiliary facts\<close>

lemma write_not_empty: "Logger_write logger ctx lvl apid ctid func line msg \<noteq> []"
  by (simp add: Logger_write_def Let_def)

lemma log_lines_eq:
  "log_lines logger uses =
     map (\<lambda>(ctx, u). Logger_write logger ctx (u_lvl u) (Some (u_apid u)) (Some (u_ctid u)) (Some (u_func u)) (u_line u) (u_expr u))
       (filter (\<lambda>(ctx, u). level_value (threshold logger) \<le> level_value (u_lvl u)) uses)"
  by (induction uses) (auto simp: log_lines_def SRS_LOG_def write_not_empty)

text \<open>Text without escape and newline characters, and what is made of it.\<close>

definition clean :: "string \<Rightarrow> bool" where
  "clean s = list_all (\<lambda>c. c \<noteq> ESC \<and> c \<noteq> CHR 0x0A) s"

lemma clean_append [simp]: "clean (a @ b) \<longleftrightarrow> clean a \<and> clean b"
  by (simp add: clean_def)

lemma clean_Nil [simp]: "clean []"
  by (simp add: clean_def)

lemma clean_Cons [simp]: "clean (c # s) \<longleftrightarrow> c \<noteq> CHR 0x1B \<and> c \<noteq> CHR 0x0A \<and> clean s"
  by (simp add: clean_def ESC_def)

lemma clean_replicate: "c \<noteq> CHR 0x1B \<Longrightarrow> c \<noteq> CHR 0x0A \<Longrightarrow> clean (replicate n c)"
  by (induction n) simp_all

lemma clean_digits: "list_all is_digit s \<Longrightarrow> clean s"
  by (induction s) (auto simp: is_digit_def)

lemma clean_numbers [simp]: "clean (show_nat n)" "clean (show_int i)" "clean (two_digits n)"
  by (simp_all add: show_int_def two_digits_def setw_right_def clean_replicate clean_digits show_nat_digits)

lemma clean_setw [simp]:
  "clean (setw_right w CHR ''0'' s) = clean s" "clean (setw_right w CHR '' '' s) = clean s"
  "clean (setw_left w CHR '' '' s) = clean s"
  by (simp_all add: setw_right_def setw_left_def clean_replicate)

lemma clean_level [simp]: "clean (lvlStr lvl)" "clean (sym lvl)"
  by (cases lvl; simp)+

lemma clean_put_time [simp]: "clean (put_time t)"
  by (simp add: put_time_def)

lemma clean_or_default: "clean (or_default [] p) \<Longrightarrow> clean d \<Longrightarrow> clean (or_default d p)"
  by (cases p) (simp_all add: or_default_def)

lemma two_digits_length: "n < 100 \<Longrightarrow> length (two_digits n) = 2"
  using show_nat_length [of n 1] by (simp add: two_digits_def numeral_2_eq_2 power2_eq_square)

text \<open>A calendar time \<^verbatim>\<open>localtime_r\<close> can return in this millennium's and the next years' logs.\<close>

definition valid_tm :: "tm \<Rightarrow> bool" where
  "valid_tm t \<longleftrightarrow> 1000 \<le> tm_year t + 1900 \<and> tm_year t + 1900 \<le> 9999 \<and> tm_mon t < 12 \<and> tm_mday t \<le> 31 \<and>
     tm_hour t < 24 \<and> tm_min t < 60 \<and> tm_sec t \<le> 60"

lemma put_time_length:
  assumes "valid_tm t"
  shows "length (put_time t) = 19"
proof -
  have "length (show_nat (nat (tm_year t + 1900))) = 4"
    using assms show_nat_length [of "nat (tm_year t + 1900)" 3] show_nat_length_ge [of 3 "nat (tm_year t + 1900)"]
    by (auto simp: valid_tm_def intro!: antisym)
  with assms show ?thesis by (simp add: put_time_def valid_tm_def show_int_nonneg two_digits_length)
qed

lemma read_nat_zeros: "read_nat 0 (replicate k CHR ''0'' @ s) = read_nat 0 s"
  by (induction k) (simp_all add: digit_val_def)

lemma micros_nonneg: "0 \<le> us \<Longrightarrow> micros us = us mod 1000000"
  by (cases "us = 0") (simp_all add: micros_def)

lemma micros_field:
  assumes "0 \<le> us"
  shows "length (setw_right 6 CHR ''0'' (show_int (micros us))) = 6"
    and "read_nat 0 (setw_right 6 CHR ''0'' (show_int (micros us))) = nat (us mod 1000000)"
proof -
  have eq: "show_int (micros us) = show_nat (nat (us mod 1000000))"
    using assms by (simp add: micros_nonneg show_int_nonneg)
  have "nat (us mod 1000000) < 10 ^ Suc 5" by simp
  from show_nat_length [OF this] show "length (setw_right 6 CHR ''0'' (show_int (micros us))) = 6"
    by (simp add: eq)
  show "read_nat 0 (setw_right 6 CHR ''0'' (show_int (micros us))) = nat (us mod 1000000)"
    by (simp add: eq setw_right_def read_nat_zeros read_nat_show_nat)
qed

lemma lvlStr_length: "length (lvlStr lvl) = 3"
  by (cases lvl) simp_all

lemma sym_length: "lvl \<notin> range Level \<Longrightarrow> length (sym lvl) = 3"
  by (cases lvl) simp_all

lemma lvlStr_inject: "a \<notin> range Level \<Longrightarrow> b \<notin> range Level \<Longrightarrow> lvlStr a = lvlStr b \<longleftrightarrow> a = b"
  by (cases a; cases b; simp)

text \<open>The slices of a line whose fields have known lengths.\<close>

lemma slices:
  assumes "length ts = 19" and "length us = 6" and "length th = 6" and "length lv = 3" and "length sy = 3"
    and "length ap = 4" and "length ct = 4"
    and "l = ts @ ''.'' @ us @ '' [t'' @ th @ '']'' @ '' '' @ lv @ '' '' @ sy @ '' ['' @ ap @ '']'' @ '' ['' @ ct @ '']'' @ rest"
  shows "take 19 l = ts" and "take 6 (drop 20 l) = us" and "take 3 (drop 37 l) = lv"
    and "take 4 (drop 46 l) = ap" and "take 4 (drop 53 l) = ct"
  using assms by simp_all

section \<open>Properties\<close>

text \<open>
  C40: the columns of a log line. For a calendar time with a four-digit year, a time after the
  epoch, a thread id below one million, one of the six levels and identifiers of at most four
  characters, the timestamp, the microseconds, the level mnemonic, and the application and context
  id, blank-padded to four, stand at columns 0, 20, 37, 46 and 53 of a line without colour, and so
  many places later as the colour sequence of the level is long when colour is on; the
  microseconds and the level can be read back from there.
\<close>

theorem log_line_columns:
  assumes "valid_tm (tmv ctx)" and "0 \<le> epoch_us ctx" and "tid ctx < 1000000"
    and "lvl \<notin> range Level" and "length apid \<le> 4" and "length ctid \<le> 4"
    and "k = (if useColor logger then length (color lvl) else 0)"
    and "l = Logger_write logger ctx lvl (Some apid) (Some ctid) func line msg"
  shows "take 19 (drop k l) = put_time (tmv ctx)
    \<and> read_nat 0 (take 6 (drop (k + 20) l)) = nat (epoch_us ctx mod 1000000)
    \<and> (\<forall>lvl'. lvl' \<notin> range Level \<longrightarrow> (take 3 (drop (k + 37) l) = lvlStr lvl' \<longleftrightarrow> lvl' = lvl))
    \<and> take 4 (drop (k + 46) l) = setw_left 4 CHR '' '' apid \<and> take 4 (drop (k + 53) l) = setw_left 4 CHR '' '' ctid"
proof -
  let ?ap = "setw_left 4 CHR '' '' apid" and ?ct = "setw_left 4 CHR '' '' ctid"
  let ?rest = "'' {'' @ or_default ''?'' func @ '':'' @ show_int line @ ''} '' @ msg @ (if useColor logger then reset else []) @ [CHR 0x0A]"
  have thr: "length (setw_right 6 CHR '' '' (show_nat (tid ctx))) = 6"
    using show_nat_length [of "tid ctx" 5] assms(3) by simp
  have ids: "length ?ap = 4" "length ?ct = 4" using assms(5,6) by (simp_all add: setw_left_def)
  have "drop k l = put_time (tmv ctx) @ ''.'' @ setw_right 6 CHR ''0'' (show_int (micros (epoch_us ctx))) @ '' [t''
      @ setw_right 6 CHR '' '' (show_nat (tid ctx)) @ '']'' @ '' '' @ lvlStr lvl @ '' '' @ sym lvl @ '' ['' @ ?ap @ '']''
      @ '' ['' @ ?ct @ '']'' @ ?rest"
    using assms(7,8) by (simp add: Logger_write_def or_default_def)
  note cols = slices [OF put_time_length [OF assms(1)] micros_field(1) [OF assms(2)] thr lvlStr_length
    sym_length [OF assms(4)] ids this]
  from cols micros_field(2) [OF assms(2)] lvlStr_inject [OF assms(4)] show ?thesis
    by (auto simp: add.commute [of k] drop_drop)
qed

definition demo_context :: log_context where
  "demo_context =
     \<lparr>tmv = \<lparr>tm_year = 125, tm_mon = 10, tm_mday = 18, tm_hour = 9, tm_min = 5, tm_sec = 7\<rparr>,
      epoch_us = 1763456707000042, tid = 815\<rparr>"

theorem log_line_columns_witness:
  "take 19 (drop 5 (Logger_write (default_logger True) demo_context WARN (Some ''SRSC'') (Some ''CORE'') None 17 ''hello''))
     = ''2025-11-18 09:05:07''
   \<and> read_nat 0 (take 6 (drop 25 (Logger_write (default_logger True) demo_context WARN (Some ''SRSC'')
       (Some ''CORE'') None 17 ''hello''))) = 42"
proof -
  have "put_time (tmv demo_context) = ''2025-11-18 09:05:07''" by code_simp
  moreover have "valid_tm (tmv demo_context)" "0 \<le> epoch_us demo_context" "tid demo_context < 1000000"
    "nat (epoch_us demo_context mod 1000000) = 42"
    by (simp_all add: demo_context_def valid_tm_def)
  moreover have "WARN \<notin> range Level" by auto
  moreover have "(5 :: nat) = (if useColor (default_logger True) then length (color WARN) else 0)"
    by (simp add: default_logger_def)
  ultimately show ?thesis
    using log_line_columns [of demo_context WARN "''SRSC''" "''CORE''" 5 "default_logger True" _ None 17 "''hello''"] by simp
qed

text \<open>
  Log files stay clean. If the identifiers, the function name and the message have neither
  escape nor newline characters, a line written without colour has no escape character at all and
  exactly one newline, at its end; with colour it is the same text between the colour and reset
  sequences.
\<close>

lemma plain_log_is_clean:
  assumes "clean (or_default [] apid)" and "clean (or_default [] ctid)" and "clean (or_default [] func)"
    and "clean msg" and "\<not> useColor logger"
  shows "\<exists>body. Logger_write logger ctx lvl apid ctid func line msg = body @ [CHR 0x0A]
    \<and> ESC \<notin> set body \<and> CHR 0x0A \<notin> set body
    \<and> Logger_write (logger\<lparr>useColor := True\<rparr>) ctx lvl apid ctid func line msg =
        color lvl @ body @ reset @ [CHR 0x0A]"
proof -
  let ?body = "butlast (Logger_write logger ctx lvl apid ctid func line msg)"
  have "clean ?body"
    using assms by (simp add: Logger_write_def butlast_append clean_or_default)
  then have "ESC \<notin> set ?body" "CHR 0x0A \<notin> set ?body" by (auto simp: clean_def list_all_iff)
  moreover have "Logger_write logger ctx lvl apid ctid func line msg = ?body @ [CHR 0x0A]"
    "Logger_write (logger\<lparr>useColor := True\<rparr>) ctx lvl apid ctid func line msg = color lvl @ ?body @ reset @ [CHR 0x0A]"
    using assms(5) by (simp_all add: Logger_write_def butlast_append)
  ultimately show ?thesis by blast
qed

text \<open>
  Raising the threshold only removes lines. The log of any run of macro uses at a threshold
  is what the same run logs at a lower threshold with some lines left out and none altered or
  reordered; the default threshold \<^verbatim>\<open>TRACE\<close> leaves nothing out.
\<close>

lemma threshold_only_removes:
  assumes "level_value t \<le> level_value (threshold logger)"
  shows "subseq (log_lines logger uses) (log_lines (logger\<lparr>threshold := t\<rparr>) uses)
    \<and> length (log_lines (logger\<lparr>threshold := TRACE\<rparr>) uses) = length uses"
proof -
  let ?w = "\<lambda>(ctx, u). Logger_write logger ctx (u_lvl u) (Some (u_apid u)) (Some (u_ctid u)) (Some (u_func u)) (u_line u) (u_expr u)"
  let ?p = "\<lambda>t. \<lambda>(ctx, u). level_value t \<le> level_value (u_lvl u)"
  have same: "Logger_write (logger\<lparr>threshold := t'\<rparr>) = Logger_write logger" for t'
    by (intro ext) (simp add: Logger_write_def)
  have "filter (?p (threshold logger)) uses = filter (?p (threshold logger)) (filter (?p t) uses)"
    using assms by (auto intro!: filter_cong)
  then have "subseq (filter (?p (threshold logger)) uses) (filter (?p t) uses)"
    by (metis subseq_filter_left)
  then have "subseq (map ?w (filter (?p (threshold logger)) uses)) (map ?w (filter (?p t) uses))"
    by (rule subseq_map)
  then show ?thesis by (simp add: log_lines_eq same filter_True split_beta)
qed

end
