(* ===== verification/Log_Calls.thy ===== *)
theory Log_Calls
  imports Logger Daemon_Props
begin

text \<open>
  What the scheduler and the stub log. Log calls change no state, so \<open>Scheduler\<close> and \<open>Stub\<close> leave
  them out; here the \<^verbatim>\<open>LOG_*\<close> statements of each operation are a function of the same arguments
  and of the state before it, in the order in which the operation executes them, with the function
  name and line the macro inserts. \<open>daemon_log\<close> collects them for an event on the bus.
\<close>

section \<open>The log statements\<close>

text \<open>\<^verbatim>\<open>lib_srs/src/CRecoveryScheduler.cpp\<close>.\<close>

definition log_onServiceFailure :: "string \<Rightarrow> CRecoveryScheduler \<Rightarrow> log_use list result" where
  "log_onServiceFailure lStrName st =
     (let detected = LOG_WARN ''SRSC'' ''CORE'' ''onServiceFailure'' 17 (''service failure detected: '' @ lStrName)
      in case umap_find_if (\<lambda>_ info. serviceName info = lStrName) (m_MapServiceInfo st) of
           None \<Rightarrow> Inr [detected]
         | Some (key, info) \<Rightarrow>
             bind_result (fail_info info)
               (\<lambda>info1. Inr [detected,
                  LOG_DEBUG ''SRSC'' ''CORE'' ''onServiceFailure'' 33
                    (''attempt='' @ show_int (sint (recoveryActionCount info1)) @ '' nextAction='' @
                     toString (currentRecoveryState info1))]))"

definition log_onRegisterService :: "string \<Rightarrow> pid_t \<Rightarrow> CRecoveryScheduler \<Rightarrow> log_use list" where
  "log_onRegisterService lStrName lPid st =
     LOG_DEBUG ''SRSC'' ''CORE'' ''onRegisterService'' 57
       (''registerService req name='' @ lStrName @ '' pid='' @ show_int (sint lPid)) #
     (case umap_find (m_MapServiceInfo st) lStrName of
        None \<Rightarrow>
          if isNameValid lStrName
          then [LOG_INFO ''SRSC'' ''CORE'' ''onRegisterService'' 92
                  (''service registered: '' @ lStrName @ '' pid='' @ show_int (sint lPid))]
          else [LOG_ERROR ''SRSC'' ''CORE'' ''onRegisterService'' 96 (''invalid service name: '' @ lStrName)]
      | Some _ \<Rightarrow>
          [LOG_WARN ''SRSC'' ''CORE'' ''onRegisterService'' 106
             (''already registered service (now back online): '' @ lStrName)])"

definition log_onReportServiceState ::
  "string \<Rightarrow> RecoveryState \<Rightarrow> RecoveryState \<Rightarrow> CRecoveryScheduler \<Rightarrow> log_use list"
where
  "log_onReportServiceState lStrName lCurrent lLast st =
     (case umap_find (m_MapServiceInfo st) lStrName of
        None \<Rightarrow>
          [LOG_WARN ''SRSC'' ''CORE'' ''onReportServiceState'' 135
             (''reportServiceState for unknown service: '' @ lStrName)]
      | Some _ \<Rightarrow>
          [LOG_INFO ''SRSC'' ''CORE'' ''onReportServiceState'' 145
             (''state pushed name='' @ lStrName @ '' current='' @ toString lCurrent @ '' last='' @ toString lLast)])"

text \<open>\<^verbatim>\<open>lib_srs/src/CRecoverySchedulerStubImpl.cpp\<close>, with the scheduler behind the callbacks.\<close>

definition log_registerService ::
  "('client, 'dbus, 'conn, 'msg, 'tok) capi \<Rightarrow> 'client option \<Rightarrow> string \<Rightarrow> wire_state list \<Rightarrow> i32 \<Rightarrow>
   ('conn, 'tok) daemon \<Rightarrow> log_use list"
where
  "log_registerService env client lStrName wireActions liInterval d =
     (let lUniqueBusName = extractDbusUniqueName env client;
          lPid = queryUnixPidForBusName env (d_stub d) lUniqueBusName
      in case cb_onRegisterService (d_stub d) of
           None \<Rightarrow> []
         | Some onRegister \<Rightarrow>
             log_onRegisterService lStrName lPid (d_sched d) @
             (if fst (onRegister lStrName (map RecoveryState_of_wire wireActions) liInterval lPid (d_sched d))
                 \<and> lUniqueBusName \<noteq> []
              then [LOG_INFO ''SRSC'' ''DBUS'' ''registerService'' 73
                      (''watching bus name '' @ [CHR 0x27] @ lUniqueBusName @ [CHR 0x27] @ '' pid='' @ show_int (sint lPid) @
                       '' for service '' @ [CHR 0x27] @ lStrName @ [CHR 0x27])]
              else []))"

definition log_handleNameOwnerChanged ::
  "string \<Rightarrow> string \<Rightarrow> string \<Rightarrow> ('conn, 'tok) daemon \<Rightarrow> log_use list result"
where
  "log_handleNameOwnerChanged busName oldOwner newOwner d =
     (if newOwner = []
      then (case watcher_of busName (d_stub d) of
              None \<Rightarrow> Inr []
            | Some (key, peer) \<Rightarrow>
                if key \<noteq> []
                then bind_result
                       (case cb_onServiceFailure (d_stub d) of
                          None \<Rightarrow> Inr []
                        | Some onFailure \<Rightarrow> log_onServiceFailure key (d_sched d))
                       (\<lambda>us. Inr (LOG_ERROR ''SRSC'' ''DBUS'' ''handleNameOwnerChanged'' 142
                          (''peer lost service='' @ [CHR 0x27] @ key @ [CHR 0x27] @ '' bus='' @ busName @
                           '' pid='' @ show_int (sint (peer_pid peer)) @ '' - driving recovery'') # us))
                else Inr [])
      else Inr [])"

definition log_stub_run :: "('client, 'dbus, 'conn, 'msg, 'tok) capi \<Rightarrow> string \<Rightarrow> string \<Rightarrow> log_use list" where
  "log_stub_run env domain inst =
     (if \<not> runtimeAvailable env
      then [LOG_ERROR ''SRSC'' ''CAPI'' ''run'' 187
              ''CommonAPI::Runtime::get() returned null - cannot register service'']
      else if \<not> runtimeRegister env domain inst
      then [LOG_ERROR ''SRSC'' ''CAPI'' ''run'' 202
              (''registerService FAILED for '' @ domain @ '':'' @ inst @
               '' - check COMMONAPI_CONFIG points at fidl/commonapi4dbus.ini and that the routing key matches the versioned CAPI address (see fidl/commonapi4dbus.ini).'')]
      else [LOG_INFO ''SRSC'' ''CAPI'' ''run'' 207
              (''CommonAPI service registered '' @ domain @ '':'' @ inst)])"

fun daemon_log ::
  "('client, 'dbus, 'conn, 'msg, 'tok) capi \<Rightarrow> ('client, 'msg) event \<Rightarrow> ('conn, 'tok) daemon \<Rightarrow> log_use list result"
where
  "daemon_log env (CallRegister client n acts i) d = Inr (log_registerService env client n acts i d)"
| "daemon_log env (CallUnregister client n) d = Inr []"
| "daemon_log env (CallReport client n c l) d =
     Inr (case cb_onReportServiceState (d_stub d) of
            None \<Rightarrow> []
          | Some onReport \<Rightarrow>
              log_onReportServiceState n (RecoveryState_of_wire c) (RecoveryState_of_wire l) (d_sched d))"
| "daemon_log env (BusSignal msg) d =
     (let (busName, oldOwner, newOwner) = readNameOwnerChanged env msg
      in log_handleNameOwnerChanged busName oldOwner newOwner d)"

section \<open>A printed record carries its message\<close>

lemma sublist_later: "sublist xs ys \<Longrightarrow> sublist xs (ps @ ys)"
  by (simp add: sublist_append)

lemma written_message: "sublist msg (Logger_write logger ctx lvl apid ctid func line msg)"
  unfolding Logger_write_def Let_def by (intro sublist_append_rightI sublist_later)

lemma printed_message:
  "level_value (threshold logger) \<le> level_value (u_lvl u) \<Longrightarrow> sublist (u_expr u) (SRS_LOG logger ctx u)"
  by (simp add: SRS_LOG_def written_message)

text \<open>An accepted registration and a crash name their service at \<^verbatim>\<open>INFO\<close> or above.\<close>

definition names_service :: "string \<Rightarrow> log_use \<Rightarrow> bool" where
  "names_service n u \<longleftrightarrow> sublist n (u_expr u) \<and> level_value INFO \<le> level_value (u_lvl u)"

lemma register_names_service:
  assumes "lookup_service st n \<noteq> None \<or> n \<in> catalogue_names"
  obtains u where "u \<in> set (log_onRegisterService n p st)" and "names_service n u"
proof (cases "lookup_service st n")
  case None
  with assms show thesis
    by (intro that [of "LOG_INFO ''SRSC'' ''CORE'' ''onRegisterService'' 92
          (''service registered: '' @ n @ '' pid='' @ show_int (sint p))"])
      (simp_all add: log_onRegisterService_def isNameValid_iff names_service_def log_macros del: append.simps)
next
  case (Some info)
  then show thesis
    by (intro that [of "LOG_WARN ''SRSC'' ''CORE'' ''onRegisterService'' 106
          (''already registered service (now back online): '' @ n)"])
      (simp_all add: log_onRegisterService_def names_service_def log_macros del: append.simps)
qed

lemma failure_names_service:
  assumes "onServiceFailure n st = Inr st'"
  obtains us u where "log_onServiceFailure n st = Inr us" and "u \<in> set us" and "names_service n u"
proof -
  let ?u = "LOG_WARN ''SRSC'' ''CORE'' ''onServiceFailure'' 17 (''service failure detected: '' @ n)"
  have "\<exists>us. log_onServiceFailure n st = Inr us \<and> ?u \<in> set us"
    using assms
    by (auto simp: log_onServiceFailure_def onServiceFailure_def bind_result_Inr_iff Let_def split: option.splits)
  moreover have "names_service n ?u" by (simp add: names_service_def log_macros del: append.simps)
  ultimately show thesis using that by blast
qed

section \<open>Reachable daemons represent a state of the specification\<close>



text \<open>A signal changes the liveness of a service only as the loss of its watched peer.\<close>

lemma signal_changes_liveness:
  assumes "daemon_ok d" and "daemon_step env (BusSignal msg) d = Inr (r, d')"
    and "service_online (d_sched d') n \<noteq> service_online (d_sched d) n"
  obtains b old peer where "readNameOwnerChanged env msg = (b, old, [])"
    and "watcher_of b (d_stub d) = Some (n, peer)" and "onServiceFailure n (d_sched d) = Inr (d_sched d')"
proof -
  from assms(1) have w: "scheduler_wired (d_stub d)" and so: "sched_ok (d_sched d)"
    and watch: "watch_ok (service_online (d_sched d)) (m_ServiceToBusName (d_stub d))"
    by (simp_all add: daemon_ok_def)
  obtain b old new where rd: "readNameOwnerChanged env msg = (b, old, new)" by (rule prod_cases3)
  have handle: "handleNameOwnerChanged b old new (d_stub d) (d_sched d) = Inr (d_stub d', d_sched d')"
    using assms(2) by (auto simp: onSignalDBusMessage_def rd bind_result_Inr_iff)
  have "d_sched d' \<noteq> d_sched d" using assms(3) by auto
  then have new: "new = []" and "watcher_of b (d_stub d) \<noteq> None"
    using handle handle_owner_kept [of new b old "d_stub d" "d_sched d"]
      handle_not_watched [of b "d_stub d" old new "d_sched d"]
    by (metis Pair_inject sum.inject(2))+
  then obtain k peer where k: "watcher_of b (d_stub d) = Some (k, peer)" by auto
  have "k \<noteq> []" using watcher_of_Some [OF watch_ok_umap_ok [OF watch] k] watch_okD [OF watch] by auto
  moreover have "cb_onServiceFailure (d_stub d) = Some onServiceFailure" using w by (simp add: wired_def)
  ultimately have fail: "onServiceFailure k (d_sched d) = Inr (d_sched d')"
    using handle handle_watched [OF k] new by (auto simp: bind_result_Inr_iff)
  then have "k = n" using assms(3) service_online_failure [OF so fail, of n] by auto
  with that rd new k fail show thesis by blast
qed

section \<open>Properties\<close>



text \<open>
  C27: no change of liveness goes unlogged, except an unregistration. Whenever an event other than
  \<^verbatim>\<open>unregisterService\<close> takes a service online or offline, one of its records names the service,
  and is printed with that name at every threshold up to \<^verbatim>\<open>INFO\<close>; \<^verbatim>\<open>unregisterService\<close> logs nothing.
\<close>

theorem liveness_changes_logged:
  assumes "reachable (booted env) (daemon_trans env) d" and "daemon_step env e d = Inr (r, d')"
    and "service_online (d_sched d') n \<noteq> service_online (d_sched d) n"
    and "level_value (threshold logger) \<le> level_value INFO"
  shows "\<exists>us. daemon_log env e d = Inr us
    \<and> (if \<exists>client. e = CallUnregister client n then us = []
       else \<exists>u. u \<in> set us \<and> sublist n (SRS_LOG logger ctx u))"
proof -
  have ok: "daemon_ok d" using assms(1) by (rule reachable_any_ok)
  then have w: "scheduler_wired (d_stub d)" and so: "sched_ok (d_sched d)"
    and watch: "watch_ok (service_online (d_sched d)) (m_ServiceToBusName (d_stub d))"
    by (simp_all add: daemon_ok_def)
  have printed: "sublist n (SRS_LOG logger ctx u)"
    if "names_service n u" for u
    using printed_message [of logger u ctx] that assms(4) unfolding names_service_def
    by (meson order.trans sublist_order.order.trans)
  show ?thesis
  proof (cases e)
    case (CallRegister client k acts i)
    let ?p = "queryUnixPidForBusName env (d_stub d) (extractDbusUniqueName env client)"
    have d': "d_sched d' = snd (onRegisterService k (map RecoveryState_of_wire acts) i ?p (d_sched d))"
      using assms(2) w unfolding CallRegister step_register [OF w] by (auto simp: Let_def split_beta)
    then have k: "k = n" "lookup_service (d_sched d) n \<noteq> None \<or> n \<in> catalogue_names"
      using assms(3) by (auto simp: service_online_register split: if_splits)
    obtain u where "u \<in> set (log_onRegisterService n ?p (d_sched d))" "sublist n (SRS_LOG logger ctx u)"
      using register_names_service [OF k(2)] printed by metis
    then show ?thesis using w k(1) by (auto simp: CallRegister log_registerService_def wired_def Let_def)
  next
    case (CallUnregister client k)
    then have "k = n"
      using assms(2,3) w so
      by (auto simp: unregisterService_def wired_def Let_def split_beta service_online_unregister)
    with CallUnregister show ?thesis by simp
  next
    case (CallReport client k c l)
    then show ?thesis
      using assms(2,3) w by (auto simp: reportServiceState_def wired_def Let_def split_beta service_online_report)
  next
    case (BusSignal msg)
    with assms(2,3) ok obtain b old peer where sig: "readNameOwnerChanged env msg = (b, old, [])"
        "watcher_of b (d_stub d) = Some (n, peer)" "onServiceFailure n (d_sched d) = Inr (d_sched d')"
      by (auto elim!: signal_changes_liveness simp del: daemon_step.simps)
    have "n \<noteq> []" using watcher_of_Some [OF watch_ok_umap_ok [OF watch] sig(2)] watch_okD [OF watch] by auto
    obtain us u where "log_onServiceFailure n (d_sched d) = Inr us" "u \<in> set us" "names_service n u"
      using sig(3) by (rule failure_names_service)
    with sig \<open>n \<noteq> []\<close> w printed [of u] show ?thesis
      by (auto simp: BusSignal log_handleNameOwnerChanged_def wired_def)
  qed
qed

theorem liveness_changes_logged_witness:
  "\<exists>us u. daemon_log demo_capi (BusSignal ('':1.7'', '':1.7'', []))
      (demo_daemon [CallRegister (Some '':1.7'') ''AppA'' [0] 5]) = Inr us \<and> u \<in> set us
    \<and> sublist ''AppA'' (SRS_LOG (default_logger False)
        \<lparr>tmv = \<lparr>tm_year = 125, tm_mon = 0, tm_mday = 1, tm_hour = 0, tm_min = 0, tm_sec = 0\<rparr>, epoch_us = 7, tid = 3\<rparr> u)"
proof -
  let ?d = "demo_daemon [CallRegister (Some '':1.7'') ''AppA'' [0] 5]"
  let ?e = "BusSignal ('':1.7'', '':1.7'', []) :: (string, string \<times> string \<times> string) event"
  have r: "reachable (booted demo_capi) (daemon_trans demo_capi) ?d"
    by (rule reachable_bounded_any [OF demo_reachable]) simp
  obtain rr d' where step: "daemon_step demo_capi ?e ?d = Inr (rr, d')"
    using daemon_step_defined [OF reachable_bounded_safe [OF demo_reachable], of "[CallRegister (Some '':1.7'') ''AppA'' [0] 5]" demo_capi ?e]
    by (auto simp del: daemon_step.simps)
  then have "d' = snd (projr (daemon_step demo_capi ?e ?d))" by simp
  moreover have "service_online (d_sched (snd (projr (daemon_step demo_capi ?e ?d)))) ''AppA'' \<noteq> service_online (d_sched ?d) ''AppA''"
    by code_simp
  ultimately have change: "service_online (d_sched d') ''AppA'' \<noteq> service_online (d_sched ?d) ''AppA''" by simp
  have "level_value (threshold (default_logger False)) \<le> level_value INFO" by (simp add: default_logger_def)
  from liveness_changes_logged [OF r step change this] show ?thesis by auto
qed

end
