(* ===== verification/Console.thy ===== *)
theory Console
  imports Logger Daemon
begin

text \<open>
  \<^verbatim>\<open>main.cpp\<close>: the snapshot printer, the interactive loop and the program's entry point.
  \<^verbatim>\<open>std::cin\<close> is the remaining input with its \<^verbatim>\<open>eofbit\<close> and \<^verbatim>\<open>failbit\<close>, and the three
  extractions the loop uses follow the C++17 standard library on them. The console runs beside the
  D-Bus threads, so the registry it queries may differ from query to query: \<open>reg k\<close> is the registry
  at the \<open>k\<close>-th query. Output is the sequence of \<^verbatim>\<open>std::cerr\<close> texts and logger macro uses.
\<close>

section \<open>Standard input\<close>

record istream =
  buf :: string
  eofbit :: bool
  failbit :: bool

abbreviation good :: "istream \<Rightarrow> bool" where
  "good s \<equiv> \<not> eofbit s \<and> \<not> failbit s"

definition NL :: char where "NL = CHR 0x0A"

text \<open>\<^verbatim>\<open>isspace\<close> of the C locale.\<close>

definition is_space :: "char \<Rightarrow> bool" where
  "is_space c \<longleftrightarrow> c \<in> {CHR '' '', CHR 0x09, NL, CHR 0x0B, CHR 0x0C, CHR 0x0D}"

definition INT_MAX :: int where "INT_MAX = 2147483647"
definition INT_MIN :: int where "INT_MIN = - 2147483648"

text \<open>
  \<^verbatim>\<open>std::num_get\<close> for \<^verbatim>\<open>int\<close>: an optional sign, then digits; the value is clamped and
  \<^verbatim>\<open>failbit\<close> set when it does not fit, \<^verbatim>\<open>failbit\<close> set and the value 0 without a digit;
  \<^verbatim>\<open>eofbit\<close> set when the input ended.
\<close>

definition num_get :: "istream \<Rightarrow> int \<times> istream" where
  "num_get s =
     (let negative = (case buf s of c # _ \<Rightarrow> c = CHR ''-'' | [] \<Rightarrow> False);
          signed = (case buf s of c # _ \<Rightarrow> c = CHR ''-'' \<or> c = CHR ''+'' | [] \<Rightarrow> False);
          b = (if signed then tl (buf s) else buf s);
          ds = takeWhile is_digit b;
          rest = dropWhile is_digit b;
          v = (if negative then - int (read_nat 0 ds) else int (read_nat 0 ds));
          eof = (rest = [])
      in if ds = [] then (0, \<lparr>buf = rest, eofbit = eof, failbit = True\<rparr>)
         else if v > INT_MAX then (INT_MAX, \<lparr>buf = rest, eofbit = eof, failbit = True\<rparr>)
         else if v < INT_MIN then (INT_MIN, \<lparr>buf = rest, eofbit = eof, failbit = True\<rparr>)
         else (v, \<lparr>buf = rest, eofbit = eof, failbit = False\<rparr>))"

text \<open>\<^verbatim>\<open>std::cin >> input\<close>: the sentry skips white space; without a good stream \<open>input\<close> stays.\<close>

definition extract_int :: "int \<Rightarrow> istream \<Rightarrow> int \<times> istream" where
  "extract_int input s =
     (if \<not> good s then (input, s\<lparr>failbit := True\<rparr>)
      else let b = dropWhile is_space (buf s)
           in if b = [] then (input, \<lparr>buf = [], eofbit = True, failbit = True\<rparr>)
              else num_get (s\<lparr>buf := b\<rparr>))"

definition istream_clear :: "istream \<Rightarrow> istream" where
  "istream_clear s = s\<lparr>eofbit := False, failbit := False\<rparr>"

text \<open>\<^verbatim>\<open>ignore(max, '\n')\<close>: up to and including the next newline.\<close>

definition ignore_line :: "istream \<Rightarrow> istream" where
  "ignore_line s =
     (if \<not> good s then s\<lparr>failbit := True\<rparr>
      else case dropWhile (\<lambda>c. c \<noteq> NL) (buf s) of
             [] \<Rightarrow> s\<lparr>buf := [], eofbit := True\<rparr>
           | _ # rest \<Rightarrow> s\<lparr>buf := rest\<rparr>)"

definition getline :: "istream \<Rightarrow> string \<times> istream" where
  "getline s =
     (if \<not> good s then ([], s\<lparr>failbit := True\<rparr>)
      else let line = takeWhile (\<lambda>c. c \<noteq> NL) (buf s)
           in case dropWhile (\<lambda>c. c \<noteq> NL) (buf s) of
                [] \<Rightarrow> (line, \<lparr>buf = [], eofbit = True, failbit = (line = [])\<rparr>)
              | _ # rest \<Rightarrow> (line, s\<lparr>buf := rest\<rparr>))"

section \<open>The snapshot printer\<close>

datatype console_out = Cerr string | Log log_use

definition printSnapshot :: "CRecoveryScheduler \<Rightarrow> string \<Rightarrow> console_out result" where
  "printSnapshot scheduler name =
     bind_result (getServiceState name scheduler) (\<lambda>lSnap. Inr (
       if found lSnap
       then Log (LOG_INFO ''SRSC'' ''SNAP'' ''printSnapshot'' 22
              (''name='' @ name @ '' liveness='' @ (if snap_isOnline lSnap then ''ONLINE'' else ''CRASHED'')
               @ '' last='' @ toString (snap_lastAction lSnap) @ '' current='' @ toString (currentAction lSnap)
               @ '' next='' @ toString (nextAction lSnap) @ '' attempts='' @ show_int (attemptCount lSnap)))
       else Log (LOG_WARN ''SRSC'' ''SNAP'' ''printSnapshot'' 26 (''name='' @ name @ '' not registered''))))"

text \<open>The loop over the catalogue; query number \<open>k\<close> is answered by \<open>reg k\<close>.\<close>

fun print_all :: "(nat \<Rightarrow> CRecoveryScheduler) \<Rightarrow> nat \<Rightarrow> (ServiceId \<times> string) list \<Rightarrow> console_out list result" where
  "print_all reg k [] = Inr []"
| "print_all reg k (kv # kvs) =
     bind_result (printSnapshot (reg k) (snd kv)) (\<lambda>x.
       bind_result (print_all reg (Suc k) kvs) (\<lambda>xs. Inr (x # xs)))"

section \<open>The loop\<close>

definition tabs :: "nat \<Rightarrow> string" where "tabs n = replicate n CHR 0x09"
definition nls :: "nat \<Rightarrow> string" where "nls n = replicate n NL"

definition menu :: "console_out list" where
  "menu =
     [Cerr (nls 10),
      Cerr (tabs 6 @ ''|=====================================================|'' @ nls 1),
      Cerr (tabs 6 @ ''|--------------->SRS DEBUG/CONSOLE Mode<-------------|'' @ nls 1),
      Cerr (tabs 6 @ ''|=====================================================|'' @ nls 1),
      Cerr (nls 2 @ tabs 8 @ ''Enter Input to continue'' @ nls 1),
      Cerr (nls 1 @ tabs 8 @ '' 0. Exit'' @ nls 1),
      Cerr (nls 1 @ tabs 8 @ '' 1. Query App State'' @ nls 1),
      Cerr (nls 1 @ tabs 8 @ ''> '')]"

definition name_prompt :: console_out where
  "name_prompt = Cerr (''Enter AppName (blank = all), Eg: '' @ [CHR 0x27] @ ''AppA'' @ [CHR 0x27] @ nls 1 @ ''> '')"

definition log_closed :: console_out where
  "log_closed = Log (LOG_INFO ''SRSC'' ''CLI '' ''consoleLoop'' 51 ''stdin closed, exiting console'')"

definition log_exit :: console_out where
  "log_exit = Log (LOG_INFO ''SRSC'' ''CLI '' ''consoleLoop'' 63 ''Exit requested'')"

datatype flow = Break | Continue

text \<open>The query branch, and one pass through the body of \<^verbatim>\<open>while (true)\<close>.\<close>

definition console_query ::
  "(nat \<Rightarrow> CRecoveryScheduler) \<Rightarrow> nat \<Rightarrow> istream \<Rightarrow> (console_out list \<times> nat \<times> istream) result"
where
  "console_query reg k cin =
     (let (lName, cin') = getline cin
      in if failbit cin' then Inr ([], k, cin')
         else if lName \<noteq> []
              then bind_result (printSnapshot (reg k) lName) (\<lambda>x. Inr ([x], Suc k, cin'))
              else bind_result (print_all reg k g_MapServiceNames)
                     (\<lambda>xs. Inr (xs, k + length g_MapServiceNames, cin')))"

definition console_iter ::
  "(nat \<Rightarrow> CRecoveryScheduler) \<Rightarrow> nat \<Rightarrow> istream \<Rightarrow> (console_out list \<times> flow \<times> nat \<times> istream) result"
where
  "console_iter reg k cin =
     (let (input, cin1) = extract_int (- 1) cin
      in if failbit cin1
         then (if eofbit cin1 then Inr (menu @ [log_closed], Break, k, cin1)
               else Inr (menu, Continue, k, ignore_line (istream_clear cin1)))
         else let cin2 = ignore_line cin1
              in if input = 0 then Inr (menu @ [log_exit], Break, k, cin2)
                 else if input = 1
                 then bind_result (console_query reg k cin2)
                        (\<lambda>(xs, k', cin3). Inr (menu @ [name_prompt] @ xs, Continue, k', cin3))
                 else Inr (menu @ [Log (LOG_WARN ''SRSC'' ''CLI '' ''consoleLoop'' 87
                              (''unknown option: '' @ show_int input))], Continue, k, cin2))"

section \<open>Every pass that continues consumes input\<close>

definition progress :: "istream \<Rightarrow> nat" where
  "progress s = 2 * length (buf s) + (if eofbit s then 0 else 1)"

lemma dropWhile_length: "length (dropWhile P xs) \<le> length xs"
  by (induction xs) simp_all

lemma num_get_consumes:
  assumes "num_get s = (v, s')"
  shows "length (buf s') \<le> length (buf s)" and "\<not> failbit s' \<Longrightarrow> length (buf s') < length (buf s)"
proof -
  define b where "b = (if case buf s of c # _ \<Rightarrow> c = CHR ''-'' \<or> c = CHR ''+'' | [] \<Rightarrow> False then tl (buf s) else buf s)"
  have b: "length b \<le> length (buf s)" by (simp add: b_def)
  have s': "buf s' = dropWhile is_digit b" "\<not> failbit s' \<Longrightarrow> takeWhile is_digit b \<noteq> []"
    using assms by (auto simp: num_get_def b_def Let_def split: if_splits)
  then show "length (buf s') \<le> length (buf s)" using b dropWhile_length [of is_digit b] by simp
  show "length (buf s') < length (buf s)" if "\<not> failbit s'"
  proof -
    have "length b = length (takeWhile is_digit b) + length (dropWhile is_digit b)"
      by (metis length_append takeWhile_dropWhile_id)
    moreover have "0 < length (takeWhile is_digit b)" using s'(2) [OF that] by simp
    ultimately show ?thesis unfolding s'(1) using b by linarith
  qed
qed

lemma extract_int_consumes:
  assumes "extract_int i s = (v, s')"
  shows "length (buf s') \<le> length (buf s)" and "\<not> failbit s' \<Longrightarrow> length (buf s') < length (buf s)"
    and "\<not> eofbit s' \<Longrightarrow> \<not> eofbit s"
proof -
  let ?b = "dropWhile is_space (buf s)"
  have le: "length ?b \<le> length (buf s)" by (rule dropWhile_length)
  consider "\<not> good s" "s' = s\<lparr>failbit := True\<rparr>" | "?b = []" "s' = \<lparr>buf = [], eofbit = True, failbit = True\<rparr>"
    | "good s" "num_get (s\<lparr>buf := ?b\<rparr>) = (v, s')"
    using assms by (auto simp: extract_int_def Let_def split: if_splits)
  then show "length (buf s') \<le> length (buf s)" "\<not> failbit s' \<Longrightarrow> length (buf s') < length (buf s)"
      "\<not> eofbit s' \<Longrightarrow> \<not> eofbit s"
    using num_get_consumes [of "s\<lparr>buf := ?b\<rparr>" v s'] le by (cases; simp)+
qed

lemma ignore_line_consumes:
  "length (buf (ignore_line s)) \<le> length (buf s)"
  "good s \<Longrightarrow> progress (ignore_line s) < progress s"
proof -
  have le: "length (dropWhile (\<lambda>c. c \<noteq> NL) (buf s)) \<le> length (buf s)" by (rule dropWhile_length)
  then show "length (buf (ignore_line s)) \<le> length (buf s)"
    by (auto simp: ignore_line_def split: list.split)
  show "good s \<Longrightarrow> progress (ignore_line s) < progress s"
    using le by (auto simp: ignore_line_def progress_def split: list.split)
qed

lemma getline_consumes: "getline s = (l, s') \<Longrightarrow> length (buf s') \<le> length (buf s)"
  using dropWhile_length [of "\<lambda>c. c \<noteq> NL" "buf s"]
  by (auto simp: getline_def Let_def split: if_splits list.splits)

lemma console_query_consumes:
  "console_query reg k cin = Inr (xs, k', cin') \<Longrightarrow> length (buf cin') \<le> length (buf cin)"
  by (cases "getline cin")
    (auto simp: console_query_def bind_result_Inr_iff dest: getline_consumes split: if_splits)

lemma progress_less: "length (buf s') < length (buf s) \<Longrightarrow> progress s' < progress s"
  by (simp add: progress_def)

lemma console_iter_progress:
  assumes "console_iter reg k cin = Inr (out, Continue, k', cin')"
  shows "progress cin' < progress cin"
proof -
  obtain input cin1 where e: "extract_int (- 1) cin = (input, cin1)" by fastforce
  note ec = extract_int_consumes [OF e]
  show ?thesis
  proof (cases "failbit cin1")
    case True
    with assms e have "\<not> eofbit cin1" and cin': "cin' = ignore_line (istream_clear cin1)"
      by (auto simp: console_iter_def split: if_splits)
    have "progress cin' < progress (istream_clear cin1)"
      unfolding cin' by (rule ignore_line_consumes(2)) (simp add: istream_clear_def)
    also have "\<dots> \<le> progress cin"
      using ec(1) ec(3) [OF \<open>\<not> eofbit cin1\<close>] by (simp add: progress_def istream_clear_def)
    finally show ?thesis .
  next
    case False
    with assms e have "length (buf cin') \<le> length (buf (ignore_line cin1))"
      by (auto simp: console_iter_def bind_result_Inr_iff Let_def dest: console_query_consumes split: if_splits)
    with ignore_line_consumes(1) [of cin1] ec(2) [OF False] show ?thesis
      by (intro progress_less) linarith
  qed
qed

function consoleLoop_body ::
  "(nat \<Rightarrow> CRecoveryScheduler) \<Rightarrow> nat \<Rightarrow> istream \<Rightarrow> (console_out list \<times> nat \<times> istream) result"
where
  "consoleLoop_body reg k cin =
     (case console_iter reg k cin of
        Inl e \<Rightarrow> Inl e
      | Inr (out, Break, k', cin') \<Rightarrow> Inr (out, k', cin')
      | Inr (out, Continue, k', cin') \<Rightarrow>
          (case consoleLoop_body reg k' cin' of
             Inl e \<Rightarrow> Inl e
           | Inr (out', r) \<Rightarrow> Inr (out @ out', r)))"
  by auto
termination
  by (relation "measure (\<lambda>(reg, k, cin). progress cin)") (auto dest: console_iter_progress)

declare consoleLoop_body.simps [simp del]

definition consoleLoop ::
  "(nat \<Rightarrow> CRecoveryScheduler) \<Rightarrow> istream \<Rightarrow> (console_out list \<times> nat \<times> istream) result"
where
  "consoleLoop reg cin =
     bind_result (consoleLoop_body reg 0 cin)
       (\<lambda>(out, r). Inr (Log (LOG_INFO ''SRSC'' ''CLI '' ''consoleLoop'' 32 ''console ready'') # out, r))"

section \<open>The entry point\<close>

datatype ending = Return int | Runs_forever

definition console_mode :: "string list \<Rightarrow> bool" where
  "console_mode argv = fold (\<lambda>arg lbConsoleMode. if arg = ''mode=console'' then True else lbConsoleMode) (tl argv) False"

text \<open>\<^verbatim>\<open>main\<close>: what it writes itself and how it ends; the headless branch sleeps for ever.\<close>

definition srs_main ::
  "('client, 'dbus, 'conn, 'msg, 'tok) capi \<Rightarrow> string list \<Rightarrow> (nat \<Rightarrow> CRecoveryScheduler) \<Rightarrow> istream \<Rightarrow>
   (console_out list \<times> ending) result"
where
  "srs_main env argv reg cin =
     (let lbConsoleMode = console_mode argv;
          (isRunning, d) = daemon_boot env
      in if \<not> isRunning
         then Inr ([Log (LOG_ERROR ''SRSC'' ''MAIN'' ''main'' 107
                      ''scheduler failed to bring up CommonAPI service - aborting'')], Return 0)
         else if lbConsoleMode
         then bind_result (consoleLoop reg cin) (\<lambda>(out, r). Inr (out, Return 0))
         else Inr ([Log (LOG_INFO ''SRSC'' ''MAIN'' ''main'' 119
                      (''running headless (pass '' @ [CHR 0x27] @ ''mode=console'' @ [CHR 0x27] @ '' for interactive query)''))],
                   Runs_forever))"

end
