(* ===== verification/Console_Props.thy ===== *)
theory Console_Props
  imports Console
begin

text \<open>
  The console always ends, reads back the numbers the program prints, answers the two kinds of
  query, survives garbage, and how \<^verbatim>\<open>main\<close> ends.
\<close>

section \<open>Auxiliary facts\<close>

lemma printSnapshot_safe: "sched_safe st \<Longrightarrow> \<exists>x. printSnapshot st n = Inr x"
  by (simp add: printSnapshot_def getServiceState_safe)

lemma print_all_safe:
  assumes "\<And>k. sched_safe (reg k)"
  shows "\<exists>xs. print_all reg k kvs = Inr xs \<and> length xs = length kvs \<and>
    (\<forall>j < length kvs. printSnapshot (reg (k + j)) (snd (kvs ! j)) = Inr (xs ! j))"
proof (induction kvs arbitrary: k)
  case Nil
  then show ?case by simp
next
  case (Cons kv kvs)
  obtain x where x: "printSnapshot (reg k) (snd kv) = Inr x" using printSnapshot_safe [OF assms] by blast
  from Cons.IH [of "Suc k"] obtain xs where xs: "print_all reg (Suc k) kvs = Inr xs" "length xs = length kvs"
    "\<And>j. j < length kvs \<Longrightarrow> printSnapshot (reg (Suc k + j)) (snd (kvs ! j)) = Inr (xs ! j)" by blast
  have "printSnapshot (reg (k + j)) (snd ((kv # kvs) ! j)) = Inr ((x # xs) ! j)" if "j < length (kv # kvs)" for j
    using that x xs(3) by (cases j) simp_all
  with x xs(1,2) show ?case by auto
qed

lemma console_query_safe:
  assumes "\<And>k. sched_safe (reg k)"
  shows "\<exists>r. console_query reg k cin = Inr r"
proof -
  obtain l cin' where "getline cin = (l, cin')" by fastforce
  moreover obtain x where "printSnapshot (reg k) l = Inr x" using printSnapshot_safe [OF assms] by blast
  moreover obtain xs where "print_all reg k g_MapServiceNames = Inr xs"
    using print_all_safe [of reg k g_MapServiceNames, OF assms] by blast
  ultimately show ?thesis by (simp add: console_query_def)
qed

lemma console_iter_safe:
  assumes "\<And>k. sched_safe (reg k)"
  shows "\<exists>out fl k' cin'. console_iter reg k cin = Inr (out, fl, k', cin')
    \<and> (fl = Break \<longrightarrow> last out \<in> {log_exit, log_closed})"
proof -
  obtain input cin1 where e: "extract_int (- 1) cin = (input, cin1)" by fastforce
  obtain xs k' cin' where "console_query reg k (ignore_line cin1) = Inr (xs, k', cin')"
    using console_query_safe [of reg k "ignore_line cin1", OF assms] by auto
  with e show ?thesis by (simp add: console_iter_def Let_def)
qed

lemma consoleLoop_body_ends:
  assumes "\<And>k. sched_safe (reg k)"
  shows "\<exists>out k' cin'. consoleLoop_body reg k cin = Inr (out, k', cin') \<and> out \<noteq> []
    \<and> last out \<in> {log_exit, log_closed}"
proof (induction "progress cin" arbitrary: k cin rule: less_induct)
  case less
  obtain out fl k' cin' where it: "console_iter reg k cin = Inr (out, fl, k', cin')"
    and br: "fl = Break \<Longrightarrow> last out \<in> {log_exit, log_closed}"
    using console_iter_safe [of reg k cin, OF assms] by blast
  show ?case
  proof (cases fl)
    case Break
    have "out \<noteq> []"
      using it Break by (auto simp: console_iter_def bind_result_Inr_iff Let_def split: if_splits prod.splits)
    with it br Break show ?thesis by (subst consoleLoop_body.simps) simp
  next
    case Continue
    with it have "progress cin' < progress cin" by (simp add: console_iter_progress)
    from less [OF this, of k'] it Continue show ?thesis by (subst consoleLoop_body.simps) fastforce
  qed
qed

text \<open>Reading a printed number.\<close>

lemma takeWhile_digits:
  "list_all P ds \<Longrightarrow> rest = [] \<or> \<not> P (hd rest) \<Longrightarrow> takeWhile P (ds @ rest) = ds \<and> dropWhile P (ds @ rest) = rest"
  by (induction ds) (cases rest; simp)+

lemma digit_not_sign: "is_digit c \<Longrightarrow> c \<noteq> CHR ''-'' \<and> c \<noteq> CHR ''+'' \<and> \<not> is_space c"
  by (auto simp: is_digit_def is_space_def NL_def)

lemma num_get_show_int:
  assumes "rest = [] \<or> \<not> is_digit (hd rest)" and "INT_MIN \<le> i" and "i \<le> INT_MAX" and "buf s = show_int i @ rest"
  shows "num_get s = (i, \<lparr>buf = rest, eofbit = (rest = []), failbit = False\<rparr>)"
proof -
  let ?n = "nat \<bar>i\<bar>"
  have tw: "takeWhile is_digit (show_nat n @ rest) = show_nat n" "dropWhile is_digit (show_nat n @ rest) = rest" for n
    using takeWhile_digits [OF show_nat_digits assms(1)] by auto
  obtain c cs where c: "show_nat ?n = c # cs" "is_digit c"
    using show_nat_nonempty [of ?n] show_nat_digits [of ?n] by (cases "show_nat ?n") auto
  show ?thesis
  proof (cases "i < 0")
    case True
    then have "buf s = CHR ''-'' # show_nat ?n @ rest" using assms(4) by (simp add: show_int_def)
    with True assms(2,3) show ?thesis
      by (simp add: num_get_def Let_def tw read_nat_show_nat show_nat_nonempty INT_MAX_def
          del: dropWhile_eq_Nil_conv takeWhile_eq_Nil_iff)
  next
    case False
    then have b: "buf s = show_nat ?n @ rest" using assms(4) by (simp add: show_int_def)
    then have "(case buf s of c # _ \<Rightarrow> c = CHR ''-'' | [] \<Rightarrow> False) = False"
      "(case buf s of c # _ \<Rightarrow> c = CHR ''-'' \<or> c = CHR ''+'' | [] \<Rightarrow> False) = False"
      using c digit_not_sign [OF c(2)] by simp_all
    with False assms(2,3) show ?thesis
      by (simp add: num_get_def Let_def b tw read_nat_show_nat show_nat_nonempty INT_MIN_def
          del: dropWhile_eq_Nil_conv takeWhile_eq_Nil_iff)
  qed
qed

section \<open>Properties\<close>

text \<open>
  What the program prints as an integer it reads back. On a good stream holding white space,
  the decimal rendering of any 32-bit integer and then the end or a non-digit, \<^verbatim>\<open>cin >> input\<close>
  succeeds with exactly that integer and leaves exactly the rest.
\<close>

lemma read_printed_int:
  assumes "good s" and "buf s = ws @ show_int i @ rest" and "list_all is_space ws"
    and "INT_MIN \<le> i" and "i \<le> INT_MAX" and "rest = [] \<or> \<not> is_digit (hd rest)"
  shows "extract_int j s = (i, \<lparr>buf = rest, eofbit = (rest = []), failbit = False\<rparr>)"
proof -
  have "show_int i \<noteq> []" by (simp add: show_int_def show_nat_nonempty)
  then obtain c cs where c: "show_int i = c # cs" by (cases "show_int i") auto
  have "\<not> is_space c"
    using c show_nat_digits [of "nat \<bar>i\<bar>"] digit_not_sign [of c]
    by (auto simp: show_int_def is_space_def NL_def split: if_splits)
  then have "dropWhile is_space (buf s) = show_int i @ rest"
    using takeWhile_digits [OF assms(3), of "show_int i @ rest"] assms(2) c by simp
  then show ?thesis
    using assms(1) \<open>show_int i \<noteq> []\<close> num_get_show_int [OF assms(6,4,5), of "s\<lparr>buf := show_int i @ rest\<rparr>"]
    by (simp add: extract_int_def)
qed

text \<open>
  C23: the console ends on every input. Whatever is typed and however the registry changes between
  queries (as long as its policies are safe), the loop terminates, and its last word is that exit
  was requested or that the input is closed.
\<close>

theorem console_always_ends:
  assumes "\<And>k. sched_safe (reg k)"
  shows "\<exists>out k' cin'. consoleLoop reg cin = Inr (out, k', cin') \<and> last out \<in> {log_exit, log_closed}"
  using consoleLoop_body_ends [of reg 0 cin, OF assms] by (auto simp: consoleLoop_def)

theorem console_always_ends_witness:
  "\<exists>out k' cin'. consoleLoop (\<lambda>_. init_scheduler)
     \<lparr>buf = ''what? 1'' @ [NL] @ ''AppA'', eofbit = False, failbit = False\<rparr> = Inr (out, k', cin')
   \<and> last out \<in> {log_exit, log_closed}"
  by (rule console_always_ends) (rule init_scheduler_safe)

text \<open>The first number of a line: what is left for the rest of a pass.\<close>

lemma extract_option:
  assumes "0 \<le> i" and "i \<le> INT_MAX" and "list_all (\<lambda>c. c \<noteq> NL) junk" and "junk = [] \<or> \<not> is_digit (hd junk)"
  shows "extract_int (- 1) \<lparr>buf = show_int i @ junk @ NL # rest, eofbit = False, failbit = False\<rparr> =
      (i, \<lparr>buf = junk @ NL # rest, eofbit = False, failbit = False\<rparr>)"
    and "ignore_line \<lparr>buf = junk @ NL # rest, eofbit = False, failbit = False\<rparr> =
      \<lparr>buf = rest, eofbit = False, failbit = False\<rparr>"
proof -
  have "\<not> is_digit (hd (junk @ NL # rest))" using assms(4) by (cases junk) (simp_all add: is_digit_def NL_def)
  then show "extract_int (- 1) \<lparr>buf = show_int i @ junk @ NL # rest, eofbit = False, failbit = False\<rparr> =
      (i, \<lparr>buf = junk @ NL # rest, eofbit = False, failbit = False\<rparr>)"
    using num_get_show_int [of "junk @ NL # rest" i] assms(1,2) show_nat_nonempty [of "nat i"]
      show_nat_digits [of "nat i"] digit_not_sign
    by (cases "show_nat (nat i)") (auto simp: extract_int_def show_int_nonneg INT_MIN_def)
  show "ignore_line \<lparr>buf = junk @ NL # rest, eofbit = False, failbit = False\<rparr> =
      \<lparr>buf = rest, eofbit = False, failbit = False\<rparr>"
    using takeWhile_digits [OF assms(3), of "NL # rest"] by (simp add: ignore_line_def)
qed

lemma show_int_1: "show_int 1 = ''1''"
  by code_simp

lemma iter_option_1:
  "console_iter reg k \<lparr>buf = ''1'' @ NL # rest, eofbit = False, failbit = False\<rparr> =
     bind_result (console_query reg k \<lparr>buf = rest, eofbit = False, failbit = False\<rparr>)
       (\<lambda>(xs, k', cin3). Inr (menu @ [name_prompt] @ xs, Continue, k', cin3))"
  using extract_option [of 1 "[]" rest] by (simp add: console_iter_def show_int_1 INT_MAX_def)

lemma iter_named_query:
  assumes "name \<noteq> []" and "list_all (\<lambda>c. c \<noteq> NL) name"
  shows "console_iter reg k \<lparr>buf = ''1'' @ [NL] @ name @ [NL] @ rest, eofbit = False, failbit = False\<rparr> =
    bind_result (printSnapshot (reg k) name)
      (\<lambda>x. Inr (menu @ [name_prompt, x], Continue, Suc k, \<lparr>buf = rest, eofbit = False, failbit = False\<rparr>))"
proof -
  have "getline \<lparr>buf = name @ NL # rest, eofbit = False, failbit = False\<rparr> =
      (name, \<lparr>buf = rest, eofbit = False, failbit = False\<rparr>)"
    using takeWhile_digits [OF assms(2), of "NL # rest"] by (simp add: getline_def)
  then show ?thesis
    using iter_option_1 [of reg k "name @ NL # rest"] assms(1)
    by (simp add: console_query_def bind_result_assoc)
qed

text \<open>
  C37: a named query. In a registry whose cursors are inside their policies, after option 1 and a non-empty line the console logs exactly one record, at
  the state of the registry at that moment: a warning that the service is not registered, or its
  liveness, states and attempts; nothing is read beyond that line.
\<close>

theorem named_query_prints_snapshot:
  assumes "sched_safe (reg k)" and "name \<noteq> []" and "list_all (\<lambda>c. c \<noteq> NL) name"
  shows "\<exists>u. console_iter reg k \<lparr>buf = ''1'' @ [NL] @ name @ [NL] @ rest, eofbit = False, failbit = False\<rparr> =
      Inr (menu @ [name_prompt, Log u], Continue, Suc k, \<lparr>buf = rest, eofbit = False, failbit = False\<rparr>)
    \<and> (case lookup_service (reg k) name of
         None \<Rightarrow> u_lvl u = WARN \<and> u_expr u = ''name='' @ name @ '' not registered''
       | Some info \<Rightarrow> u_lvl u = INFO \<and> u_expr u =
           ''name='' @ name @ '' liveness='' @ (if isOnline info then ''ONLINE'' else ''CRASHED'')
           @ '' last='' @ toString (lastAction info) @ '' current='' @ toString (currentRecoveryState info)
           @ '' next='' @ toString (nextAction (snapshot_of info)) @ '' attempts='' @ show_int (sint (crashCount info)))"
  unfolding iter_named_query [OF assms(2,3)]
  by (simp add: printSnapshot_def getServiceState_safe [OF assms(1)] no_snapshot_def log_macros
      snapshot_of_def split: option.split)

theorem named_query_prints_snapshot_witness:
  "\<exists>u. console_iter (\<lambda>_. init_scheduler) 0
      \<lparr>buf = ''1'' @ [NL] @ ''AppQ'' @ [NL] @ ''0'', eofbit = False, failbit = False\<rparr> =
      Inr (menu @ [name_prompt, Log u], Continue, Suc 0, \<lparr>buf = ''0'', eofbit = False, failbit = False\<rparr>)
    \<and> u_lvl u = WARN \<and> u_expr u = ''name=AppQ not registered''"
  using named_query_prints_snapshot [of "\<lambda>_. init_scheduler" 0 "''AppQ''" "''0''"]
  by (simp add: init_scheduler_safe NL_def)

text \<open>
  A blank query. After option 1 and an empty line the console prints one snapshot for each of
  the twenty services, \<^verbatim>\<open>AppA\<close> to \<^verbatim>\<open>AppT\<close> in that order, the \<open>j\<close>-th from the registry at the
  \<open>j\<close>-th query.
\<close>

lemma blank_query_lists_catalogue:
  assumes "\<And>k. sched_safe (reg k)"
  shows "\<exists>xs. console_iter reg k \<lparr>buf = ''1'' @ [NL, NL] @ rest, eofbit = False, failbit = False\<rparr> =
      Inr (menu @ [name_prompt] @ xs, Continue, k + 20, \<lparr>buf = rest, eofbit = False, failbit = False\<rparr>)
    \<and> length xs = 20
    \<and> (\<forall>j < 20. printSnapshot (reg (k + j)) (''App'' @ [char_of (65 + j)]) = Inr (xs ! j))"
proof -
  have len: "length g_MapServiceNames = 20" by (simp add: g_MapServiceNames_def)
  have "\<forall>j \<in> set [0..<20]. snd (g_MapServiceNames ! j) = ''App'' @ [char_of (65 + j)]" by code_simp
  then have names: "snd (g_MapServiceNames ! j) = ''App'' @ [char_of (65 + j)]" if "j < 20" for j
    using that by simp
  obtain xs where xs: "print_all reg k g_MapServiceNames = Inr xs" "length xs = 20"
    "\<And>j. j < 20 \<Longrightarrow> printSnapshot (reg (k + j)) (''App'' @ [char_of (65 + j)]) = Inr (xs ! j)"
    using print_all_safe [of reg k g_MapServiceNames, OF assms] by (auto simp: len names)
  have "getline \<lparr>buf = NL # rest, eofbit = False, failbit = False\<rparr> =
      ([], \<lparr>buf = rest, eofbit = False, failbit = False\<rparr>)" by (simp add: getline_def)
  with xs iter_option_1 [of reg k "NL # rest"] len show ?thesis by (auto simp: console_query_def)
qed

text \<open>
  Garbage does not make the console spin or misfire. A line whose first visible character can
  not begin a number is dropped as a whole: the pass only shows the menu, queries nothing, and the
  next pass starts right after that line.
\<close>

lemma garbage_line_is_dropped:
  assumes "list_all is_space ws" and "\<not> is_space c" and "\<not> is_digit c" and "c \<notin> {CHR ''-'', CHR ''+''}"
    and "list_all (\<lambda>c. c \<noteq> NL) junk"
  shows "console_iter reg k \<lparr>buf = ws @ c # junk @ NL # rest, eofbit = False, failbit = False\<rparr> =
    Inr (menu, Continue, k, \<lparr>buf = rest, eofbit = False, failbit = False\<rparr>)"
proof -
  have "dropWhile is_space (ws @ c # junk @ NL # rest) = c # junk @ NL # rest"
    using takeWhile_digits [OF assms(1), of "c # junk @ NL # rest"] assms(2) by simp
  then have ex: "extract_int (- 1) \<lparr>buf = ws @ c # junk @ NL # rest, eofbit = False, failbit = False\<rparr> =
      (0, \<lparr>buf = c # junk @ NL # rest, eofbit = False, failbit = True\<rparr>)"
    using assms(3,4) by (simp add: extract_int_def num_get_def)
  have "c \<noteq> NL" using assms(2) by (auto simp: is_space_def)
  with takeWhile_digits [OF assms(5), of "NL # rest"]
  have "ignore_line (istream_clear \<lparr>buf = c # junk @ NL # rest, eofbit = False, failbit = True\<rparr>) =
      \<lparr>buf = rest, eofbit = False, failbit = False\<rparr>"
    by (simp add: ignore_line_def istream_clear_def)
  with ex show ?thesis by (simp add: console_iter_def)
qed

text \<open>
  C34: how the program ends, for registries whose cursors are inside their policies. Without the argument \<^verbatim>\<open>mode=console\<close> (after the program name) a
  daemon that came up runs for ever; with it the program ends with the console; and a daemon that
  could not be brought up ends at once. The exit status is 0 in every case, also in the last.
\<close>

theorem main_exit_status:
  assumes "\<And>k. sched_safe (reg k)"
  shows "\<exists>out. srs_main env argv reg cin =
    Inr (out, if fst (daemon_boot env) \<and> ''mode=console'' \<notin> set (tl argv) then Runs_forever else Return 0)
    \<and> (\<not> fst (daemon_boot env) \<longrightarrow> (\<exists>u. out = [Log u] \<and> u_lvl u = ERROR))"
proof -
  have mode: "console_mode argv \<longleftrightarrow> ''mode=console'' \<in> set (tl argv)"
    by (simp add: console_mode_def fold_any)
  obtain out k' cin' where "consoleLoop reg cin = Inr (out, k', cin')"
    using consoleLoop_body_ends [of reg 0 cin, OF assms] by (auto simp: consoleLoop_def)
  with mode show ?thesis by (auto simp: srs_main_def log_macros split_beta)
qed

theorem main_exit_status_witness:
  "\<exists>out. srs_main \<lparr>asDBusClientId = Some, getDBusId = Some, isAlive = (\<lambda>_. True),
        sendPidQuery = (\<lambda>_ _. NullReply), readNameOwnerChanged = (\<lambda>_. ([], [], [])), runtimeAvailable = False,
        runtimeRegister = (\<lambda>_ _. True), stubAdapterConnection = (None :: unit option option),
        addSignalMemberHandler = (\<lambda>_ _ _ _ _ _. 1 :: nat)\<rparr>
      [''app_srs'', ''mode=console''] (\<lambda>_. init_scheduler) \<lparr>buf = [], eofbit = False, failbit = False\<rparr>
    = Inr (out, Return 0) \<and> (\<exists>u. out = [Log u] \<and> u_lvl u = ERROR)"
  using main_exit_status [of "\<lambda>_. init_scheduler" "\<lparr>asDBusClientId = Some, getDBusId = Some, isAlive = (\<lambda>_. True),
        sendPidQuery = (\<lambda>_ _. NullReply), readNameOwnerChanged = (\<lambda>_. ([], [], [])), runtimeAvailable = False,
        runtimeRegister = (\<lambda>_ _. True), stubAdapterConnection = (None :: unit option option),
        addSignalMemberHandler = (\<lambda>_ _ _ _ _ _. 1 :: nat)\<rparr>" "[''app_srs'', ''mode=console'']"]
  by (simp add: init_scheduler_safe daemon_boot_def scheduler_run_def stub_run_def new_instance_def)

end
