(* ===== verification/Client_Apps.thy ===== *)
theory Client_Apps
  imports Daemon_Spec Scheduler_Props
begin

text \<open>
  The three sample clients of \<^verbatim>\<open>other_apps_dummy\<close>. Each builds a proxy, polls until the scheduler
  is available, registers itself under its catalogue name with its own policy, pushes its state
  once and then sleeps for ever. The proxy's answers to \<^verbatim>\<open>isAvailable\<close> are a parameter; a client's
  effect is the sequence of requests it sends, which the daemon of \<open>Daemon\<close> handles.
\<close>

section \<open>The programs\<close>

text \<open>\<^verbatim>\<open>g_MapServiceNames[id]\<close>: \<^verbatim>\<open>operator[]\<close> yields an empty string for an absent key.\<close>

definition service_name :: "ServiceId \<Rightarrow> string" where
  "service_name ident = (case map_of g_MapServiceNames ident of Some n \<Rightarrow> n | None \<Rightarrow> [])"

record client_script =
  app_id :: ServiceId
  app_policy :: "wire_state list"
  app_interval :: i32
  app_current :: wire_state
  app_last :: wire_state

definition appA :: client_script where
  "appA = \<lparr>app_id = APP_A,
     app_policy = [wire_RESTART, wire_RESTART, wire_RESTART, wire_STOP, wire_DISABLE], app_interval = - 1,
     app_current = wire_RESTART, app_last = wire_UNKNOWN\<rparr>"

definition appB :: client_script where
  "appB = \<lparr>app_id = APP_B, app_policy = [wire_STOP, wire_DISABLE], app_interval = - 1,
     app_current = wire_STOP, app_last = wire_UNKNOWN\<rparr>"

definition appC :: client_script where
  "appC = \<lparr>app_id = APP_C, app_policy = [wire_DISABLE, wire_RESTART, wire_STOP], app_interval = - 1,
     app_current = wire_DISABLE, app_last = wire_UNKNOWN\<rparr>"

definition app_requests :: "client_script \<Rightarrow> 'client option \<Rightarrow> ('client, 'msg) event list" where
  "app_requests a client =
     [CallRegister client (service_name (app_id a)) (app_policy a) (app_interval a),
      CallReport client (service_name (app_id a)) (app_current a) (app_last a)]"

text \<open>The polling loop: it returns the number of polls that failed, if it returns.\<close>

partial_function (option) wait_available :: "(nat \<Rightarrow> bool) \<Rightarrow> nat \<Rightarrow> nat option" where
  "wait_available isAvailable k = (if isAvailable k then Some k else wait_available isAvailable (Suc k))"

text \<open>\<^verbatim>\<open>main\<close> of a client: without a proxy nothing is sent; \<open>None\<close> when it polls for ever.\<close>

definition app_main :: "client_script \<Rightarrow> bool \<Rightarrow> (nat \<Rightarrow> bool) \<Rightarrow> 'client option \<Rightarrow> ('client, 'msg) event list option" where
  "app_main a proxy isAvailable client =
     (if proxy then map_option (\<lambda>_. app_requests a client) (wait_available isAvailable 0) else Some [])"

section \<open>The polling loop\<close>

lemma wait_available_finds:
  assumes "isAvailable n" and "k \<le> n"
  shows "\<exists>m. wait_available isAvailable k = Some m \<and> k \<le> m \<and> m \<le> n \<and> isAvailable m \<and> (\<forall>j. k \<le> j \<longrightarrow> j < m \<longrightarrow> \<not> isAvailable j)"
  using assms(2)
proof (induction k rule: inc_induct)
  case base
  then show ?case using assms(1) by (subst wait_available.simps) auto
next
  case (step k)
  show ?case
  proof (cases "isAvailable k")
    case True
    with step show ?thesis by (subst wait_available.simps) auto
  next
    case False
    with step obtain m where "wait_available isAvailable (Suc k) = Some m" "Suc k \<le> m" "m \<le> n" "isAvailable m"
      "\<forall>j. Suc k \<le> j \<longrightarrow> j < m \<longrightarrow> \<not> isAvailable j" by blast
    with False show ?thesis
      by (subst wait_available.simps) (auto simp: Suc_le_eq le_eq_less_or_eq [of k])
  qed
qed

lemma wait_available_sound:
  assumes "wait_available isAvailable k = Some m"
  shows "isAvailable m"
  by (rule wait_available.raw_induct [where P = "\<lambda>a k m. a m", OF _ assms])
    (simp split: if_splits)

section \<open>One client on the specification\<close>

inductive_cases spec_register_cases: "spec_trans env s (CallRegister client n acts i) r s'"
inductive_cases spec_report_cases: "spec_trans env s (CallReport client n c l) r s'"
inductive_cases spec_signal_cases: "spec_trans env s (BusSignal msg) r s'"

text \<open>A service that has come up \<open>j\<close> times after a crash and pushed its state.\<close>

definition app_spec :: "client_script \<Rightarrow> nat \<Rightarrow> service_spec" where
  "app_spec a j =
     \<lparr>policy = map RecoveryState_of_wire (app_policy a), crashes = j, spec_online = True,
      spec_current = RecoveryState_of_wire (app_current a), spec_last = (if j = 0 then UNKNOWN else CRASHED)\<rparr>"

text \<open>The tables just before the \<open>j\<close>-th incarnation starts: nothing yet, or a crashed service.\<close>

definition before_start :: "client_script \<Rightarrow> nat \<Rightarrow> daemon_spec" where
  "before_start a j =
     \<lparr>services = (if j = 0 then Map.empty else [service_name (app_id a) \<mapsto> crash_spec (app_spec a (j - 1))]),
      watched = Map.empty\<rparr>"

definition running :: "client_script \<Rightarrow> nat \<Rightarrow> string \<Rightarrow> daemon_spec" where
  "running a j b =
     \<lparr>services = [service_name (app_id a) \<mapsto> app_spec a j], watched = [service_name (app_id a) \<mapsto> b]\<rparr>"

text \<open>A script as the sample clients have it: a listed identifier, a policy, no last state to report.\<close>

definition script_ok :: "client_script \<Rightarrow> bool" where
  "script_ok a \<longleftrightarrow> service_name (app_id a) \<in> catalogue_names \<and> app_policy a \<noteq> [] \<and> length (app_policy a) \<le> 127 \<and>
     RecoveryState_of_wire (app_last a) = UNKNOWN"

lemma sample_scripts_ok: "a \<in> {appA, appB, appC} \<Longrightarrow> script_ok a"
  by (auto simp: script_ok_def appA_def appB_def appC_def service_name_def catalogue_names_def g_MapServiceNames_def)

lemma app_starts:
  assumes ok: "script_ok a" and rel: "daemon_refines d (before_start a j)"
    and b: "extractDbusUniqueName env client = b" "b \<noteq> []"
  shows "\<exists>d'. run_ops (daemon_step env) (app_requests a client) d =
      Inr ([RegisterReply Register_OK, QueryReply Query_OK], d') \<and> daemon_refines d' (running a j b)"
proof -
  let ?n = "service_name (app_id a)"
  let ?reg = "CallRegister client ?n (app_policy a) (app_interval a)"
  let ?rep = "CallReport client ?n (app_current a) (app_last a)"
  have n: "?n \<in> catalogue_names" and last: "RecoveryState_of_wire (app_last a) = UNKNOWN"
    using ok by (simp_all add: script_ok_def)
  have "bounded_event ?reg" using ok by (simp add: script_ok_def)
  then obtain r d1 s1 where 1: "daemon_step env ?reg d = Inr (r, d1)" "spec_trans env (before_start a j) ?reg r s1"
      "daemon_refines d1 s1"
    using daemon_simulates [OF rel, of ?reg env] by blast
  from 1(2) have r: "r = RegisterReply Register_OK" and s1: "watched s1 = [?n \<mapsto> b]"
      "services s1 = [?n \<mapsto> (app_spec a j)\<lparr>spec_current := (if j = 0 then UNKNOWN else spec_next (app_spec a (j - 1)))\<rparr>]"
    using n b ok
    by (auto elim!: spec_register_cases
        simp: before_start_def fresh_spec_def app_spec_def crash_spec_def effective_policy_def script_ok_def
        split: if_splits)
  obtain r' d2 s2 where 2: "daemon_step env ?rep d1 = Inr (r', d2)" "spec_trans env s1 ?rep r' s2" "daemon_refines d2 s2"
    using daemon_simulates [OF 1(3), of ?rep env] by auto
  from 2(2) have "r' = QueryReply Query_OK" "s2 = running a j b"
    using s1 last by (auto elim!: spec_report_cases simp: running_def app_spec_def)
  with 1(1) 2(1,3) r show ?thesis by (simp add: app_requests_def del: daemon_step.simps)
qed

lemma app_dies:
  assumes rel: "daemon_refines d (running a j b)" and rd: "readNameOwnerChanged env msg = (b, old, [])"
  shows "\<exists>d'. daemon_step env (BusSignal msg) d = Inr (NoReply, d') \<and> daemon_refines d' (before_start a (Suc j))"
proof -
  obtain r d' s' where 1: "daemon_step env (BusSignal msg) d = Inr (r, d')"
      "spec_trans env (running a j b) (BusSignal msg) r s'" "daemon_refines d' s'"
    using daemon_simulates [OF rel, of "BusSignal msg" env] by auto
  from 1(2) have "r = NoReply" "s' = before_start a (Suc j)"
    using rd by (auto elim!: spec_signal_cases simp: running_def before_start_def split: if_splits)
  with 1 show ?thesis by blast
qed

section \<open>A client's life\<close>

text \<open>
  A service whose process dies and is started again: each past incarnation sent its requests from
  its own connection and ended with a loss signal; the last one, from \<open>client\<close>, is alive.
\<close>

fun life :: "client_script \<Rightarrow> ('client option \<times> 'msg) list \<Rightarrow> 'client option \<Rightarrow> ('client, 'msg) event list" where
  "life a [] client = app_requests a client"
| "life a ((c, msg) # past) client = app_requests a c @ [BusSignal msg] @ life a past client"

text \<open>A loss signal that matches its incarnation's connection, which has a bus name.\<close>

definition incarnation_ok :: "('client, 'dbus, 'conn, 'msg, 'tok) capi \<Rightarrow> 'client option \<times> 'msg \<Rightarrow> bool" where
  "incarnation_ok env = (\<lambda>(c, msg). extractDbusUniqueName env c \<noteq> [] \<and>
     fst (readNameOwnerChanged env msg) = extractDbusUniqueName env c \<and> snd (snd (readNameOwnerChanged env msg)) = [])"

lemma life_refines:
  assumes "script_ok a" and "daemon_refines d (before_start a j)" and "list_all (incarnation_ok env) past"
    and "extractDbusUniqueName env client = b" "b \<noteq> []"
  shows "\<exists>rs d'. run_ops (daemon_step env) (life a past client) d = Inr (rs, d') \<and>
    daemon_refines d' (running a (j + length past) b)"
  using assms(2,3)
proof (induction past arbitrary: d j)
  case Nil
  then show ?case using app_starts [OF assms(1) _ assms(4,5)] by fastforce
next
  case (Cons p past)
  obtain c msg where p: "p = (c, msg)" by fastforce
  obtain old where rd: "readNameOwnerChanged env msg = (extractDbusUniqueName env c, old, [])"
      and c: "extractDbusUniqueName env c \<noteq> []"
    using Cons.prems(2) p by (cases "readNameOwnerChanged env msg") (auto simp: incarnation_ok_def)
  obtain d1 where 1: "run_ops (daemon_step env) (app_requests a c) d = Inr ([RegisterReply Register_OK, QueryReply Query_OK], d1)"
      "daemon_refines d1 (running a j (extractDbusUniqueName env c))"
    using app_starts [OF assms(1) Cons.prems(1) refl c] by blast
  obtain d2 where 2: "daemon_step env (BusSignal msg) d1 = Inr (NoReply, d2)" "daemon_refines d2 (before_start a (Suc j))"
    using app_dies [OF 1(2) rd] by blast
  obtain rs d' where "run_ops (daemon_step env) (life a past client) d2 = Inr (rs, d')"
      "daemon_refines d' (running a (Suc j + length past) b)"
    using Cons.IH [OF 2(2)] Cons.prems(2) by auto
  with 1(1) 2(1) show ?case by (simp add: p run_ops_append del: daemon_step.simps)
qed

section \<open>Properties\<close>

text \<open>
  The life of a sample client. Take any of the three clients, started once more after each of
  any number of crashes, every incarnation from its own connection. The daemon handles all of it;
  at the end the service is online, shows the state it last pushed, remembers \<^verbatim>\<open>CRASHED\<close> (its own
  \<^verbatim>\<open>UNKNOWN\<close> does not erase it), has one attempt per crash, and announces the entry of its policy
  at the number of crashes modulo the policy's length.
\<close>

lemma sample_client_life:
  assumes "a \<in> {appA, appB, appC}" and "list_all (incarnation_ok env) past"
    and "extractDbusUniqueName env client \<noteq> []" and "length past < 2 ^ 31"
  shows "\<exists>rs d. run_ops (daemon_step env) (life a past client) (snd (daemon_boot env)) = Inr (rs, d)
    \<and> getServiceState (service_name (app_id a)) (d_sched d) =
        Inr \<lparr>found = True, snap_isOnline = True, snap_lastAction = (if past = [] then UNKNOWN else CRASHED),
             currentAction = RecoveryState_of_wire (app_current a),
             nextAction = RecoveryState_of_wire (app_policy a ! (length past mod length (app_policy a))),
             attemptCount = int (length past)\<rparr>"
proof -
  have ok: "script_ok a" by (rule sample_scripts_ok [OF assms(1)])
  then have len: "length (app_policy a) \<noteq> 128" "length past mod length (app_policy a) < length (app_policy a)"
    by (simp_all add: script_ok_def)
  have "daemon_refines (snd (daemon_boot env)) (before_start a 0)"
    using daemon_boot_refines [of env] by (simp add: before_start_def empty_spec_def)
  from life_refines [OF ok this assms(2) refl assms(3)] obtain rs d where
      run: "run_ops (daemon_step env) (life a past client) (snd (daemon_boot env)) = Inr (rs, d)"
      and "daemon_refines d (running a (length past) (extractDbusUniqueName env client))"
    by auto
  then have "sched_refines (d_sched d) [service_name (app_id a) \<mapsto> app_spec a (length past)]"
    by (auto simp: running_def dest: daemon_refinesD(2))
  note snap = getServiceState_refines [OF this, of "service_name (app_id a)"]
  have "sint (word_of_nat (length past) :: u32) = int (length past)"
    using assms(4) by (simp add: signed_of_nat signed_take_bit_int_eq_self)
  with snap len have "getServiceState (service_name (app_id a)) (d_sched d) =
        Inr \<lparr>found = True, snap_isOnline = True, snap_lastAction = (if past = [] then UNKNOWN else CRASHED),
             currentAction = RecoveryState_of_wire (app_current a),
             nextAction = RecoveryState_of_wire (app_policy a ! (length past mod length (app_policy a))),
             attemptCount = int (length past)\<rparr>"
    by (simp add: app_spec_def spec_next_def)
  with run show ?thesis by blast
qed

text \<open>
  C38: the polling loop of the clients returns exactly if the scheduler is available at some poll,
  after the first such poll; a client with a proxy then sends its two requests, one that is never
  told of an available scheduler polls for ever, and one without a proxy sends nothing.
\<close>

theorem client_sends_iff_available:
  "app_main a True isAvailable client = (if \<exists>n. isAvailable n then Some (app_requests a client) else None)
   \<and> app_main a False isAvailable client = Some []
   \<and> (\<forall>m. wait_available isAvailable 0 = Some m \<longleftrightarrow> isAvailable m \<and> (\<forall>j < m. \<not> isAvailable j))"
proof -
  have first: "wait_available isAvailable 0 = Some m \<longleftrightarrow> isAvailable m \<and> (\<forall>j < m. \<not> isAvailable j)" for m
  proof
    assume "wait_available isAvailable 0 = Some m"
    moreover from this have "isAvailable m" by (rule wait_available_sound)
    ultimately show "isAvailable m \<and> (\<forall>j < m. \<not> isAvailable j)"
      using wait_available_finds [of isAvailable m 0] by auto
  next
    assume "isAvailable m \<and> (\<forall>j < m. \<not> isAvailable j)"
    then show "wait_available isAvailable 0 = Some m"
      using wait_available_finds [of isAvailable m 0] by (auto simp: order_le_less)
  qed
  have "wait_available isAvailable 0 = None \<longleftrightarrow> (\<nexists>n. isAvailable n)"
    using wait_available_finds [of isAvailable _ 0] wait_available_sound [of isAvailable 0]
    by (cases "wait_available isAvailable 0") fastforce+
  with first show ?thesis by (cases "wait_available isAvailable 0") (auto simp: app_main_def)
qed

theorem client_sends_iff_available_witness:
  "app_main appA True (\<lambda>k. 3 \<le> k) (Some '':1.5'') = Some (app_requests appA (Some '':1.5'') :: (string, nat) event list)
   \<and> wait_available (\<lambda>k. 3 \<le> k) 0 = Some 3"
proof -
  have "\<exists>n::nat. 3 \<le> n" by blast
  with client_sends_iff_available [of appA "\<lambda>k. 3 \<le> k" "Some '':1.5''"] show ?thesis by auto
qed

end
