(* ===== verification/Unit_Tests.thy ===== *)
theory Unit_Tests
  imports Daemon
begin

text \<open>
  The repository's GoogleTest suites (\<^verbatim>\<open>gtest/src\<close>) run on the model: the expectations the
  authors wrote down, as executable definitions over the modelled operations. A test is a list of
  statements on a fixture; a failed \<^verbatim>\<open>EXPECT\<close> records its line and goes on, a failed \<^verbatim>\<open>ASSERT\<close>
  also leaves the test. The scheduler under test is the process-wide singleton, so the registry
  one test leaves behind is the one the next test finds.
\<close>

section \<open>Fixtures and statements\<close>

text \<open>\<^verbatim>\<open>getInstance\<close>: the function-local static is constructed by the first call only.\<close>

record process =
  instance_address :: "nat option"
  the_scheduler :: CRecoveryScheduler

definition fresh_process :: process where
  "fresh_process = \<lparr>instance_address = None, the_scheduler = init_scheduler\<rparr>"

definition getInstance :: "process \<Rightarrow> nat \<times> process" where
  "getInstance p =
     (case instance_address p of
        Some a \<Rightarrow> (a, p)
      | None \<Rightarrow> (1, \<lparr>instance_address = Some 1, the_scheduler = init_scheduler\<rparr>))"

record SchedulerTest =
  proc :: process
  scheduler :: nat                 \<comment> \<open>the address \<^verbatim>\<open>SetUp\<close> stored\<close>
  registered :: "string list"
  failed_lines :: "nat list"
  left_test :: bool

type_synonym stmt = "SchedulerTest \<Rightarrow> SchedulerTest result"

definition expect_that :: "nat \<Rightarrow> bool \<Rightarrow> SchedulerTest \<Rightarrow> SchedulerTest" where
  "expect_that line ok fx = (if ok then fx else fx\<lparr>failed_lines := failed_lines fx @ [line]\<rparr>)"

definition assert_that :: "nat \<Rightarrow> bool \<Rightarrow> SchedulerTest \<Rightarrow> SchedulerTest" where
  "assert_that line ok fx =
     (if ok then fx else fx\<lparr>failed_lines := failed_lines fx @ [line], left_test := True\<rparr>)"

abbreviation with_scheduler :: "CRecoveryScheduler \<Rightarrow> SchedulerTest \<Rightarrow> SchedulerTest" where
  "with_scheduler st fx \<equiv> fx\<lparr>proc := (proc fx)\<lparr>the_scheduler := st\<rparr>\<rparr>"

abbreviation sut :: "SchedulerTest \<Rightarrow> CRecoveryScheduler" where
  "sut fx \<equiv> the_scheduler (proc fx)"

definition doRegister :: "string \<Rightarrow> RecoveryState list \<Rightarrow> i32 \<Rightarrow> SchedulerTest \<Rightarrow> bool \<times> SchedulerTest" where
  "doRegister name acts interval fx =
     (let (ok, st) = onRegisterService name acts interval (- 1) (sut fx);
          fx1 = with_scheduler st fx
      in (ok, if ok then fx1\<lparr>registered := registered fx1 @ [name]\<rparr> else fx1))"

definition assert_doRegister :: "nat \<Rightarrow> string \<Rightarrow> RecoveryState list \<Rightarrow> stmt" where
  "assert_doRegister line name acts fx =
     (let (ok, fx1) = doRegister name acts (- 1) fx in Inr (assert_that line ok fx1))"

definition expect_register :: "nat \<Rightarrow> bool \<Rightarrow> string \<Rightarrow> stmt" where
  "expect_register line expected name fx =
     (let (ok, st) = onRegisterService name [] (- 1) (- 1) (sut fx)
      in Inr (expect_that line (ok = expected) (with_scheduler st fx)))"

definition expect_unregister :: "nat \<Rightarrow> bool \<Rightarrow> string \<Rightarrow> stmt" where
  "expect_unregister line expected name fx =
     (let (ok, st) = onUnregisterService name (sut fx)
      in Inr (expect_that line (ok = expected) (with_scheduler st fx)))"

definition expect_report :: "nat \<Rightarrow> bool \<Rightarrow> string \<Rightarrow> RecoveryState \<Rightarrow> RecoveryState \<Rightarrow> stmt" where
  "expect_report line expected name c l fx =
     (let (ok, st) = onReportServiceState name c l (sut fx)
      in Inr (expect_that line (ok = expected) (with_scheduler st fx)))"

definition fail_service :: "string \<Rightarrow> stmt" where
  "fail_service name fx = bind_result (onServiceFailure name (sut fx)) (\<lambda>st. Inr (with_scheduler st fx))"

text \<open>A query and the expectations on its snapshot, each with its line.\<close>

definition expect_snapshot :: "string \<Rightarrow> (nat \<times> (SServiceSnapshot \<Rightarrow> bool)) list \<Rightarrow> stmt" where
  "expect_snapshot name checks fx =
     bind_result (getServiceState name (sut fx))
       (\<lambda>snap. Inr (fold (\<lambda>(line, P). expect_that line (P snap)) checks fx))"

definition assert_snapshot :: "nat \<Rightarrow> string \<Rightarrow> (SServiceSnapshot \<Rightarrow> bool) \<Rightarrow> stmt" where
  "assert_snapshot line name P fx =
     bind_result (getServiceState name (sut fx)) (\<lambda>snap. Inr (assert_that line (P snap) fx))"

fun run_stmts :: "stmt list \<Rightarrow> stmt" where
  "run_stmts [] fx = Inr fx"
| "run_stmts (s # ss) fx = (if left_test fx then Inr fx else bind_result (s fx) (run_stmts ss))"

definition SetUp :: "process \<Rightarrow> SchedulerTest" where
  "SetUp p = (let (a, p1) = getInstance p
     in \<lparr>proc = p1, scheduler = a, registered = [], failed_lines = [], left_test = False\<rparr>)"

definition TearDown :: "SchedulerTest \<Rightarrow> SchedulerTest" where
  "TearDown fx =
     (fold (\<lambda>name fx. with_scheduler (snd (onUnregisterService name (sut fx))) fx) (registered fx) fx)\<lparr>registered := []\<rparr>"

definition run_test :: "stmt list \<Rightarrow> process \<Rightarrow> (nat list \<times> process) result" where
  "run_test body p =
     bind_result (run_stmts body (SetUp p)) (\<lambda>fx. let fx1 = TearDown fx in Inr (failed_lines fx1, proc fx1))"

text \<open>A run of tests in a given order; the value is the failed lines of each.\<close>

fun run_suite :: "stmt list list \<Rightarrow> process \<Rightarrow> (nat list list \<times> process) result" where
  "run_suite [] p = Inr ([], p)"
| "run_suite (t # ts) p =
     bind_result (run_test t p) (\<lambda>(ls, p1). bind_result (run_suite ts p1) (\<lambda>(lss, p2). Inr (ls # lss, p2)))"

section \<open>\<^verbatim>\<open>CRecoveryScheduler_gtest.cpp\<close>\<close>

definition GetInstanceReturnsSameSingleton :: "stmt list" where
  "GetInstanceReturnsSameSingleton =
     [\<lambda>fx. let (a, p1) = getInstance (proc fx); (b, p2) = getInstance p1; fx1 = fx\<lparr>proc := p2\<rparr>
            in Inr (expect_that 65 (a = scheduler fx1) (expect_that 64 (a = b) fx1))]"

definition RegisterValidNameSucceedsAndIsQueryable :: "stmt list" where
  "RegisterValidNameSucceedsAndIsQueryable =
     [assert_doRegister 72 ''AppA'' [RESTART],
      expect_snapshot ''AppA''
        [(74, found), (75, snap_isOnline), (76, \<lambda>s. attemptCount s = 0), (77, \<lambda>s. currentAction s = UNKNOWN),
         (78, \<lambda>s. snap_lastAction s = UNKNOWN), (79, \<lambda>s. nextAction s = RESTART)]]"

definition RegisterInvalidNameFails :: "stmt list" where
  "RegisterInvalidNameFails =
     [expect_register 84 False ''NotInMap'', expect_snapshot ''NotInMap'' [(85, \<lambda>s. \<not> found s)]]"

definition RegisterEmptyActionsUsesDefaults :: "stmt list" where
  "RegisterEmptyActionsUsesDefaults =
     [assert_doRegister 90 ''AppB'' [], expect_snapshot ''AppB'' [(93, \<lambda>s. nextAction s = RESTART)]]"

definition ReRegisterAfterCrashMarksOnlineWithoutLosingCounters :: "stmt list" where
  "ReRegisterAfterCrashMarksOnlineWithoutLosingCounters =
     [assert_doRegister 98 ''AppC'' [RESTART, STOP], fail_service ''AppC'',
      assert_snapshot 100 ''AppC'' (\<lambda>s. \<not> snap_isOnline s),
      expect_register 103 True ''AppC'',
      expect_snapshot ''AppC''
        [(105, snap_isOnline), (106, \<lambda>s. attemptCount s = 1), (107, \<lambda>s. snap_lastAction s = CRASHED)]]"

definition UnregisterKnownServiceSucceeds :: "stmt list" where
  "UnregisterKnownServiceSucceeds =
     [assert_doRegister 114 ''AppD'' [], \<lambda>fx. Inr (fx\<lparr>registered := []\<rparr>),
      expect_unregister 118 True ''AppD'', expect_snapshot ''AppD'' [(119, \<lambda>s. \<not> found s)]]"

definition UnregisterUnknownServiceFails :: "stmt list" where
  "UnregisterUnknownServiceFails = [expect_unregister 124 False ''AppE'']"

definition ReportStateUpdatesCurrentAndLast :: "stmt list" where
  "ReportStateUpdatesCurrentAndLast =
     [assert_doRegister 131 ''AppF'' [RESTART], expect_report 132 True ''AppF'' STOP RESTART,
      expect_snapshot ''AppF'' [(135, \<lambda>s. currentAction s = STOP), (136, \<lambda>s. snap_lastAction s = RESTART)]]"

definition ReportStateWithUnknownLastPreservesSchedulerLastAction :: "stmt list" where
  "ReportStateWithUnknownLastPreservesSchedulerLastAction =
     [assert_doRegister 141 ''AppG'' [RESTART], fail_service ''AppG'',
      assert_snapshot 144 ''AppG'' (\<lambda>s. snap_lastAction s = CRASHED),
      expect_report 147 True ''AppG'' RESTART UNKNOWN,
      expect_snapshot ''AppG'' [(149, \<lambda>s. currentAction s = RESTART), (150, \<lambda>s. snap_lastAction s = CRASHED)]]"

definition ReportStateForUnknownServiceFails :: "stmt list" where
  "ReportStateForUnknownServiceFails = [expect_report 155 False ''AppH'' RESTART UNKNOWN]"

definition FailureForUnknownServiceIsNoop :: "stmt list" where
  "FailureForUnknownServiceIsNoop = [fail_service ''AppI'', expect_snapshot ''AppI'' [(164, \<lambda>s. \<not> found s)]]"

definition FailureMarksOfflineAndRecordsCrashed :: "stmt list" where
  "FailureMarksOfflineAndRecordsCrashed =
     [assert_doRegister 169 ''AppJ'' [RESTART, STOP], fail_service ''AppJ'',
      expect_snapshot ''AppJ''
        [(173, \<lambda>s. \<not> snap_isOnline s), (174, \<lambda>s. snap_lastAction s = CRASHED), (175, \<lambda>s. currentAction s = RESTART),
         (176, \<lambda>s. nextAction s = STOP), (177, \<lambda>s. attemptCount s = 1)]]"

definition FailureRotatesActionsAndWrapsAround :: "stmt list" where
  "FailureRotatesActionsAndWrapsAround =
     [assert_doRegister 182 ''AppK'' [RESTART, STOP],
      fail_service ''AppK'',
      expect_snapshot ''AppK'' [(185, \<lambda>s. currentAction s = RESTART)],
      expect_snapshot ''AppK'' [(186, \<lambda>s. nextAction s = STOP)],
      fail_service ''AppK'',
      expect_snapshot ''AppK'' [(189, \<lambda>s. currentAction s = STOP)],
      expect_snapshot ''AppK'' [(191, \<lambda>s. nextAction s = RESTART)],
      fail_service ''AppK'',
      expect_snapshot ''AppK'' [(194, \<lambda>s. currentAction s = RESTART)]]"

definition CrashCountIsMonotonic :: "stmt list" where
  "CrashCountIsMonotonic =
     assert_doRegister 199 ''AppL'' [RESTART] #
     concat (map (\<lambda>i. [fail_service ''AppL'', expect_snapshot ''AppL'' [(204, \<lambda>s. attemptCount s = i)]]) [1..5])"

definition GetServiceStateForUnknownServiceReturnsNotFound :: "stmt list" where
  "GetServiceStateForUnknownServiceReturnsNotFound =
     [expect_snapshot ''AppM''
        [(213, \<lambda>s. \<not> found s), (214, \<lambda>s. \<not> snap_isOnline s), (215, \<lambda>s. currentAction s = UNKNOWN),
         (216, \<lambda>s. snap_lastAction s = UNKNOWN), (217, \<lambda>s. nextAction s = UNKNOWN), (218, \<lambda>s. attemptCount s = 0)]]"

definition NextActionReflectsFullSequence :: "stmt list" where
  "NextActionReflectsFullSequence =
     [assert_doRegister 223 ''AppN'' [RESTART, RESTART, STOP, DISABLE],
      expect_snapshot ''AppN'' [(229, \<lambda>s. nextAction s = RESTART)],
      fail_service ''AppN'', expect_snapshot ''AppN'' [(232, \<lambda>s. nextAction s = RESTART)],
      fail_service ''AppN'', expect_snapshot ''AppN'' [(235, \<lambda>s. nextAction s = STOP)],
      fail_service ''AppN'', expect_snapshot ''AppN'' [(238, \<lambda>s. nextAction s = DISABLE)],
      fail_service ''AppN'', expect_snapshot ''AppN'' [(241, \<lambda>s. nextAction s = RESTART)]]"

definition scheduler_tests :: "stmt list list" where
  "scheduler_tests =
     [GetInstanceReturnsSameSingleton, RegisterValidNameSucceedsAndIsQueryable, RegisterInvalidNameFails,
      RegisterEmptyActionsUsesDefaults, ReRegisterAfterCrashMarksOnlineWithoutLosingCounters,
      UnregisterKnownServiceSucceeds, UnregisterUnknownServiceFails, ReportStateUpdatesCurrentAndLast,
      ReportStateWithUnknownLastPreservesSchedulerLastAction, ReportStateForUnknownServiceFails,
      FailureForUnknownServiceIsNoop, FailureMarksOfflineAndRecordsCrashed,
      FailureRotatesActionsAndWrapsAround, CrashCountIsMonotonic,
      GetServiceStateForUnknownServiceReturnsNotFound, NextActionReflectsFullSequence]"

section \<open>\<^verbatim>\<open>CRecoverySchedulerStubImpl_gtest.cpp\<close>\<close>

text \<open>The owner of the stub under test is the fixture's set of captured arguments.\<close>

record StubTest =
  capturedName :: string
  capturedActions :: "RecoveryState list"
  capturedInterval :: i32
  capturedCurrent :: RecoveryState
  capturedLast :: RecoveryState

definition nothing_captured :: StubTest where
  "nothing_captured =
     \<lparr>capturedName = [], capturedActions = [], capturedInterval = 0, capturedCurrent = UNKNOWN, capturedLast = UNKNOWN\<rparr>"

type_synonym ('conn, 'tok) stub_under_test = "(StubTest, 'conn, 'tok) CRecoverySchedulerStubImpl"

definition installAllCallbacks :: "bool \<Rightarrow> bool \<Rightarrow> bool \<Rightarrow> ('conn, 'tok) stub_under_test \<Rightarrow> ('conn, 'tok) stub_under_test" where
  "installAllCallbacks registerReturn unregisterReturn reportReturn =
     setCallbacks
       (Some (\<lambda>name acts interval _ w.
          (registerReturn, w\<lparr>capturedName := name, capturedActions := acts, capturedInterval := interval\<rparr>)))
       (Some (\<lambda>name w. (unregisterReturn, w\<lparr>capturedName := name\<rparr>)))
       (Some (\<lambda>name w. Inr (w\<lparr>capturedName := name\<rparr>)))
       (Some (\<lambda>name current last w.
          (reportReturn, w\<lparr>capturedName := name, capturedCurrent := current, capturedLast := last\<rparr>)))"

text \<open>A test of the stub: the outcome of each expectation, with its line.\<close>

definition ExtractDbusUniqueNameOnNullClientReturnsEmpty :: "('client, 'dbus, 'conn, 'msg, 'tok) capi \<Rightarrow> (nat \<times> bool) list" where
  "ExtractDbusUniqueNameOnNullClientReturnsEmpty env = [(80, extractDbusUniqueName env None = [])]"

definition ReportServiceStateForwardsAndRepliesOkOnCallbackTrue :: "('client, 'dbus, 'conn, 'msg, 'tok) capi \<Rightarrow> (nat \<times> bool) list" where
  "ReportServiceStateForwardsAndRepliesOkOnCallbackTrue env =
     (let stub = installAllCallbacks True True True (new_stub :: ('conn, 'tok) stub_under_test);
          (replied, _, w) = reportServiceState (None :: 'client option) ''AppA'' wire_CRASHED wire_RESTART stub nothing_captured
      in [(96, capturedName w = ''AppA''), (97, capturedCurrent w = CRASHED), (98, capturedLast w = RESTART),
          (99, replied = Query_OK)])"

definition ReportServiceStateRepliesNotFoundOnCallbackFalse :: "('client, 'dbus, 'conn, 'msg, 'tok) capi \<Rightarrow> (nat \<times> bool) list" where
  "ReportServiceStateRepliesNotFoundOnCallbackFalse env =
     (let stub = installAllCallbacks True True False (new_stub :: ('conn, 'tok) stub_under_test);
          (replied, _, w) = reportServiceState (None :: 'client option) ''AppB'' wire_STOP wire_UNKNOWN stub nothing_captured
      in [(113, replied = Query_NOT_FOUND), (114, capturedLast w = UNKNOWN)])"

definition ReportServiceStateWithoutCallbackRepliesNotFound :: "('client, 'dbus, 'conn, 'msg, 'tok) capi \<Rightarrow> (nat \<times> bool) list" where
  "ReportServiceStateWithoutCallbackRepliesNotFound env =
     (let (replied, _, w) = reportServiceState (None :: 'client option) ''AppC'' wire_RESTART wire_UNKNOWN
            (new_stub :: ('conn, 'tok) stub_under_test) nothing_captured
      in [(126, replied = Query_NOT_FOUND), (127, capturedName w = [])])"

definition UnregisterServiceRepliesOkOnCallbackTrue :: "('client, 'dbus, 'conn, 'msg, 'tok) capi \<Rightarrow> (nat \<times> bool) list" where
  "UnregisterServiceRepliesOkOnCallbackTrue env =
     (let stub = installAllCallbacks True True True (new_stub :: ('conn, 'tok) stub_under_test);
          (replied, _, w) = unregisterService (None :: 'client option) ''AppD'' stub nothing_captured
      in [(141, capturedName w = ''AppD''), (142, replied = Unregister_OK)])"

definition UnregisterServiceRepliesNotFoundOnCallbackFalse :: "('client, 'dbus, 'conn, 'msg, 'tok) capi \<Rightarrow> (nat \<times> bool) list" where
  "UnregisterServiceRepliesNotFoundOnCallbackFalse env =
     (let stub = installAllCallbacks True False True (new_stub :: ('conn, 'tok) stub_under_test);
          (replied, _, w) = unregisterService (None :: 'client option) ''AppE'' stub nothing_captured
      in [(154, replied = Unregister_NOT_FOUND)])"

definition UnregisterServiceWithoutCallbackRepliesNotFound :: "('client, 'dbus, 'conn, 'msg, 'tok) capi \<Rightarrow> (nat \<times> bool) list" where
  "UnregisterServiceWithoutCallbackRepliesNotFound env =
     (let (replied, _, w) = unregisterService (None :: 'client option) ''AppF'' (new_stub :: ('conn, 'tok) stub_under_test) nothing_captured
      in [(164, replied = Unregister_NOT_FOUND)])"

text \<open>The three indexed expectations stand behind an \<^verbatim>\<open>ASSERT\<close> on the sizes.\<close>

definition RegisterServiceTranslatesEnumsAndRepliesOk :: "('client, 'dbus, 'conn, 'msg, 'tok) capi \<Rightarrow> (nat \<times> bool) list" where
  "RegisterServiceTranslatesEnumsAndRepliesOk env =
     (let stub = installAllCallbacks True True True (new_stub :: ('conn, 'tok) stub_under_test);
          wire = [wire_RESTART, wire_STOP, wire_DISABLE];
          (replied, _, w) = registerService env None ''AppG'' wire 42 stub nothing_captured;
          same_size = (length (capturedActions w) = length wire)
      in [(183, capturedName w = ''AppG''), (184, capturedInterval w = 42), (185, same_size)] @
         (if same_size
          then [(186, vec_at (capturedActions w) 0 = Inr RESTART), (187, vec_at (capturedActions w) 1 = Inr STOP),
                (188, vec_at (capturedActions w) 2 = Inr DISABLE), (189, replied = Register_OK)]
          else []))"

definition RegisterServiceRepliesInvalidNameOnCallbackFalse :: "('client, 'dbus, 'conn, 'msg, 'tok) capi \<Rightarrow> (nat \<times> bool) list" where
  "RegisterServiceRepliesInvalidNameOnCallbackFalse env =
     (let stub = installAllCallbacks False True True (new_stub :: ('conn, 'tok) stub_under_test);
          (replied, _, w) = registerService env None ''AppH'' [] (- 1) stub nothing_captured
      in [(201, replied = INVALID_NAME)])"

definition RegisterServiceWithoutCallbackRepliesInvalidName :: "('client, 'dbus, 'conn, 'msg, 'tok) capi \<Rightarrow> (nat \<times> bool) list" where
  "RegisterServiceWithoutCallbackRepliesInvalidName env =
     (let (replied, _, w) = registerService env None ''AppI'' [] (- 1)
            (new_stub :: ('conn, 'tok) stub_under_test) nothing_captured
      in [(211, replied = INVALID_NAME), (212, capturedName w = [])])"

definition stub_tests :: "('client, 'dbus, 'conn, 'msg, 'tok) capi \<Rightarrow> (nat \<times> bool) list list" where
  "stub_tests env =
     [ExtractDbusUniqueNameOnNullClientReturnsEmpty env, ReportServiceStateForwardsAndRepliesOkOnCallbackTrue env,
      ReportServiceStateRepliesNotFoundOnCallbackFalse env, ReportServiceStateWithoutCallbackRepliesNotFound env,
      UnregisterServiceRepliesOkOnCallbackTrue env, UnregisterServiceRepliesNotFoundOnCallbackFalse env,
      UnregisterServiceWithoutCallbackRepliesNotFound env, RegisterServiceTranslatesEnumsAndRepliesOk env,
      RegisterServiceRepliesInvalidNameOnCallbackFalse env, RegisterServiceWithoutCallbackRepliesInvalidName env]"

section \<open>\<^verbatim>\<open>Common_gtest.cpp\<close>\<close>

definition ToStringCoversAllEnumerators :: "(nat \<times> bool) list" where
  "ToStringCoversAllEnumerators =
     [(14, toString RESTART = ''RESTART''), (15, toString STOP = ''STOP''), (16, toString DISABLE = ''DISABLE''),
      (17, toString CRASHED = ''CRASHED''), (18, toString UNKNOWN = ''UNKNOWN'')]"

definition StreamInsertionDelegatesToToString :: "(nat \<times> bool) list" where
  "StreamInsertionDelegatesToToString =
     (let oss = stream_RecoveryState (stream_RecoveryState [] RESTART @ '','') CRASHED
      in [(25, oss = ''RESTART,CRASHED'')])"

text \<open>\<^verbatim>\<open>at\<close> throws for an absent key: \<open>None\<close>.\<close>

definition ContainsExpectedApps :: "(nat \<times> bool) list" where
  "ContainsExpectedApps =
     [(30, map_of g_MapServiceNames APP_A = Some ''AppA''), (31, map_of g_MapServiceNames APP_B = Some ''AppB''),
      (32, map_of g_MapServiceNames APP_T = Some ''AppT'')]"

definition common_tests :: "(nat \<times> bool) list list" where
  "common_tests = [ToStringCoversAllEnumerators, StreamInsertionDelegatesToToString, ContainsExpectedApps]"

section \<open>Every suite passes\<close>

definition clean_process :: "process \<Rightarrow> bool" where
  "clean_process p \<longleftrightarrow> p = fresh_process \<or> p = \<lparr>instance_address = Some 1, the_scheduler = init_scheduler\<rparr>"

lemma tests_pass_fresh:
  "list_all (\<lambda>t. run_test t fresh_process = Inr ([], \<lparr>instance_address = Some 1, the_scheduler = init_scheduler\<rparr>)) scheduler_tests"
  by code_simp

text \<open>\<^verbatim>\<open>SetUp\<close> finds the same fixture whether or not the singleton exists already.\<close>

lemma SetUp_clean: "clean_process p \<Longrightarrow> SetUp p = SetUp fresh_process"
  by (auto simp: clean_process_def SetUp_def getInstance_def fresh_process_def)

lemma test_passes:
  assumes "clean_process p" and "t \<in> set scheduler_tests"
  shows "\<exists>p'. run_test t p = Inr ([], p') \<and> clean_process p'"
proof -
  have "run_test t p = run_test t fresh_process" by (simp add: run_test_def SetUp_clean [OF assms(1)])
  with tests_pass_fresh assms(2) show ?thesis by (simp add: list_all_iff clean_process_def)
qed

lemma suite_passes:
  assumes "clean_process p" and "set ts \<subseteq> set scheduler_tests"
  shows "\<exists>p'. run_suite ts p = Inr (replicate (length ts) [], p') \<and> clean_process p'"
  using assms
proof (induction ts arbitrary: p)
  case (Cons t ts)
  then obtain p1 where 1: "run_test t p = Inr ([], p1)" "clean_process p1"
    using test_passes [of p t] by auto
  with Cons obtain p2 where "run_suite ts p1 = Inr (replicate (length ts) [], p2)" "clean_process p2" by fastforce
  with 1 show ?case by simp
qed simp

text \<open>
  C28: the scheduler's unit tests pass in any order. Although all tests share the process-wide
  singleton, every sequence of them (shuffled, repeated or filtered) runs without undefined
  behaviour, no expectation fails, and the registry is empty again at the end.
\<close>

theorem scheduler_suite_passes_in_any_order:
  assumes "set ts \<subseteq> set scheduler_tests"
  shows "\<exists>p. run_suite ts fresh_process = Inr (replicate (length ts) [], p) \<and> the_scheduler p = init_scheduler"
proof -
  have "clean_process fresh_process" by (simp add: clean_process_def)
  from suite_passes [OF this assms] show ?thesis by (auto simp: clean_process_def fresh_process_def)
qed

theorem scheduler_suite_passes_in_any_order_witness:
  "\<exists>p. run_suite (rev scheduler_tests @ scheduler_tests) fresh_process = Inr (replicate 32 [], p)
    \<and> the_scheduler p = init_scheduler"
proof -
  have "length (rev scheduler_tests @ scheduler_tests) = 32" by (simp add: scheduler_tests_def)
  then show ?thesis
    using scheduler_suite_passes_in_any_order [of "rev scheduler_tests @ scheduler_tests"] by simp
qed

text \<open>
  The stub's and the common unit tests pass in every environment: whatever the CommonAPI
  runtime and the bus do, the tests' null clients and unregistered stub give the expected
  forwarding, translation and replies.
\<close>

lemma stub_suite_passes:
  "list_all (list_all snd) (stub_tests env) \<and> list_all (list_all snd) common_tests"
proof -
  have "list_all (list_all snd) (stub_tests env)"
    by (simp add: stub_tests_def ExtractDbusUniqueNameOnNullClientReturnsEmpty_def
        ReportServiceStateForwardsAndRepliesOkOnCallbackTrue_def ReportServiceStateRepliesNotFoundOnCallbackFalse_def
        ReportServiceStateWithoutCallbackRepliesNotFound_def UnregisterServiceRepliesOkOnCallbackTrue_def
        UnregisterServiceRepliesNotFoundOnCallbackFalse_def UnregisterServiceWithoutCallbackRepliesNotFound_def
        RegisterServiceTranslatesEnumsAndRepliesOk_def RegisterServiceRepliesInvalidNameOnCallbackFalse_def
        RegisterServiceWithoutCallbackRepliesInvalidName_def installAllCallbacks_def setCallbacks_def new_stub_def
        nothing_captured_def registerService_def unregisterService_def reportServiceState_def
        extractDbusUniqueName_def vec_at_def Let_def)
  moreover have "list_all (list_all snd) common_tests" by code_simp
  ultimately show ?thesis ..
qed

end
