(* ===== verification/Spec2Isabelle.thy ===== *)
theory Spec2Isabelle
  imports Scheduler_Props Daemon_Props Dispatch Stub_Interleaving Log_Calls Console_Props Client_Apps
    Unit_Tests
begin

text \<open>
  The service recovery scheduler: a daemon that supervises a fixed catalogue of services over
  D-Bus, and the theorems that make it correct.

  \<^bold>\<open>The program.\<close> A service (see \<^verbatim>\<open>src/other_apps_dummy\<close>) calls \<^verbatim>\<open>registerService\<close> with an ordered
  list of recovery actions. The CommonAPI skeleton \<^verbatim>\<open>CRecoverySchedulerStubImpl\<close> resolves the
  caller's unique bus name and pid, forwards the request through a callback to the singleton
  \<^verbatim>\<open>CRecoveryScheduler\<close>, and on success remembers which bus name backs the service. When the bus
  reports through \<^verbatim>\<open>NameOwnerChanged\<close> that a remembered name has lost its owner, the skeleton
  forgets it and calls back \<^verbatim>\<open>onServiceFailure\<close>, which takes the service offline, counts the crash
  and moves the 8-bit cursor of the service's policy to the next action. Services push their state
  with \<^verbatim>\<open>reportServiceState\<close>; the interactive console of \<^verbatim>\<open>main.cpp\<close> prints snapshots.

  \<^bold>\<open>The theories\<close>, in dependency order, with the sources under \<^verbatim>\<open>src/\<close> they model:

  \<^item> \<open>SRS_Prelude\<close>: widths and conversions of the machine integers, undefined behaviour as the value
    \<open>Inl\<close> of a sum, vector indexing, runs of operations, and the generic contracts of the
    development as locales: \<open>transition_system\<close> (an invariant of a state machine holds in every
    reachable state), \<open>stuttering_refinement\<close> (a finer machine reaches only states of a coarser
    one) and \<open>refinement\<close> (a run of admissible operations returns what the specification returns).
  \<^item> \<open>Umap\<close>: \<^verbatim>\<open>std::unordered_map\<close> as an association list in iteration order, its interface as the
    locale \<open>unordered_map\<close>, interpreted on the list operations (\<open>um\<close>).
  \<^item> \<open>Common_Types\<close>: \<^verbatim>\<open>lib_srs/inc/Common.hpp\<close> and the enumerations of
    \<^verbatim>\<open>fidl/RecoveryScheduler.fidl\<close>.
  \<^item> \<open>Scheduler\<close>: \<^verbatim>\<open>lib_srs/inc/CRecoveryScheduler.hpp\<close> and \<^verbatim>\<open>lib_srs/src/CRecoveryScheduler.cpp\<close>.
    The records have the fields of the structs; one definition per method, with the method's name.
    The cursor is an \<open>8 word\<close> read as signed, the crash counter a \<open>32 word\<close>; reading the policy
    past its end is \<open>Inl VectorOutOfRange\<close>. The invariants \<open>sched_ok\<close> (names, keys, non-empty
    policies) and \<open>sched_safe\<close> (also: every cursor inside its ring) and what each operation does.
  \<^item> \<open>Scheduler_Spec\<close>: a specification without machine integers (policy, number of crashes), the
    relation \<open>sched_refines\<close>, the interpretation \<open>sched\<close> of \<open>refinement\<close>, and which policy lengths are
    safe. \<open>Scheduler_Props\<close>: the properties of the registry.
  \<^item> \<open>Stub\<close>: \<^verbatim>\<open>lib_srs/inc/CRecoverySchedulerStubImpl.hpp\<close> and
    \<^verbatim>\<open>lib_srs/src/CRecoverySchedulerStubImpl.cpp\<close>. CommonAPI and libdbus are not in the repository:
    what the stub calls of them is the record \<open>capi\<close>, an argument of every operation. The stub is
    polymorphic in its owner; what it needs of the owner is the locale \<open>recovery_registry\<close>, extended
    by \<open>total_registry\<close> for owners whose failure handler is always defined.
  \<^item> \<open>Daemon\<close>: \<^verbatim>\<open>init\<close> and \<^verbatim>\<open>run\<close> of the scheduler, the state of both components, and the events of
    the bus as steps (\<open>daemon_step\<close>). The scheduler interprets the stub's contract (\<open>any_policy\<close>,
    \<open>safe_policy\<close>), which gives the reachability invariants \<open>daemon_ok\<close> and \<open>daemon_safe\<close>.
    \<open>Daemon_Spec\<close>: an abstract daemon (service table and watch table) and the simulation.
    \<open>Daemon_Props\<close>: registration, crash detection, false alarms, unregistration, start-up.
  \<^item> \<open>Interleaving\<close>: the critical sections of the scheduler's methods as steps of threads.
    \<^verbatim>\<open>onRegisterService\<close> looks its name up before it takes the lock, so it is two steps, and the
    iterator it found is used in the second one. The erasure of its element and a rehash invalidate
    an iterator, as in C++; erasures are read off the tables before and after a step, and whether an
    insertion rehashes is the library's choice, an argument of the step. \<open>Locking\<close>:
    the same at the granularity of \<^verbatim>\<open>m_MutxServiceInfo\<close> (a call waits, holds the mutex, releases
    it), with the data race of the unlocked lookup as a value; it refines \<open>Interleaving\<close>, and with
    one dispatching thread the sequential scheduler. \<open>Stub_Interleaving\<close>: the stub's handlers split
    where \<^verbatim>\<open>m_NameMutex\<close> is taken or released, on any number of dispatching threads, with the
    scheduler's methods as single steps. \<open>Dispatch\<close>: the handlers and the lock-level scheduler in one
    machine, with both mutexes.
  \<^item> \<open>Decimal\<close>, \<open>Logger\<close>: \<^verbatim>\<open>lib_srs/inc/Logger.hpp\<close>, the threshold and the bytes of a log line.
    \<open>Log_Calls\<close>: the log statements of the scheduler and the stub, as functions of the state before
    the operation.
  \<^item> \<open>Console\<close>, \<open>Console_Props\<close>: \<^verbatim>\<open>main.cpp\<close>, with \<^verbatim>\<open>std::cin\<close> as remaining input, \<^verbatim>\<open>eofbit\<close> and
    \<^verbatim>\<open>failbit\<close>.
  \<^item> \<open>Client_Apps\<close>: \<^verbatim>\<open>other_apps_dummy/appA.cpp\<close>, \<^verbatim>\<open>appB.cpp\<close>, \<^verbatim>\<open>appC.cpp\<close> as request scripts.
  \<^item> \<open>Unit_Tests\<close>: \<^verbatim>\<open>gtest/src\<close>, the tests as executable definitions over the modelled operations.
  \<^item> this theory: the property that spans clients, daemon and console.

  \<^bold>\<open>What is shown.\<close> The scheduler and the whole daemon refine their specifications for policies of
  at most 128 actions; the number of actions beyond which the cursor leaves the policy is
  characterised exactly; the announced next action is the applied one up to 127 actions and wrong
  at 128. A lost peer fails exactly its service, benign and stale signals change nothing, and every
  watched service is online in every reachable state. All of this is for handlers that run one
  after the other, which a single dispatching thread guarantees (shown for the scheduler's mutex
  and for the stub's). Where the code does less than it means to, the theorems state what happens:
  one process behind two services; two registrations on two threads (a data race, and a success
  that leaves the service offline); an unregistration, or an insertion that rehashes, between the
  halves of a re-registration (a dangling iterator); a crash, a re-registration or an unregistration between the halves of a stub
  handler (a crash that is missed, charged to the new instance, or never to be noticed). With
  policies of at most 128 actions the data race and the dangling iterator are the only undefined
  steps of handlers that overlap in any way, and every dangling iterator is traced back to the step
  that invalidated it. The names and values of the interface's recovery states survive the bus. The
  console ends on every input, every change of liveness but an unregistration is logged, and the
  repository's scheduler tests pass in any order.

  \<^bold>\<open>Bounds and termination.\<close> The bound 128 is the range of the \<^verbatim>\<open>int8_t\<close> cursor; it is a hypothesis
  where it is needed because nothing enforces \<^verbatim>\<open>MAX_RECOVERY_ACTIONS\<close>. No definition uses fuel: the
  console loop is total by a measure on the remaining input, and the clients' polling loop is a
  partial function whose value \<open>None\<close> means that it polls for ever.

  \<^bold>\<open>Not modelled.\<close> Memory exhaustion and the failure of \<^verbatim>\<open>strdup\<close>; an environment that changes
  its answers: \<open>capi\<close> is one record over a run, so whether the connection behind the weak pointer is
  alive, and what the bus answers to a pid query, does not change between calls (no property about
  supervision depends on the pid or the connection); the interleaving of single characters of two
  log lines (the logger's mutex makes a line atomic); the code CommonAPI
  generates from the interface description and the bindings themselves, which are parameters; build
  and packaging files; and \<^verbatim>\<open>recoveryConfig.Json\<close>, which no code reads.
\<close>

section \<open>From the bus to the console\<close>

text \<open>
  C16: what an operator sees of a sample client. Take any of the clients AppA, AppB and AppC,
  started again after each of any number of crashes, every incarnation on its own connection; the
  daemon handles all their requests and loss signals. A console query for the service then prints
  exactly one line: \<^verbatim>\<open>ONLINE\<close>, \<^verbatim>\<open>CRASHED\<close> as last state after at least one crash (the
  \<^verbatim>\<open>UNKNOWN\<close> a restarted client pushes does not erase it), the state the client pushed, the
  policy entry at the crash number modulo the policy's length as next action, and the number of
  crashes as attempts.
\<close>

theorem console_shows_client_life:
  assumes "a \<in> {appA, appB, appC}" and "list_all (incarnation_ok env) past"
    and "extractDbusUniqueName env client \<noteq> []" and "length past < 2 ^ 31"
    and "name = service_name (app_id a)"
  shows "\<exists>rs d u. run_ops (daemon_step env) (life a past client) (snd (daemon_boot env)) = Inr (rs, d)
    \<and> (\<forall>reg k rest. reg k = d_sched d \<longrightarrow>
        console_iter reg k \<lparr>buf = ''1'' @ [NL] @ name @ [NL] @ rest, eofbit = False, failbit = False\<rparr> =
          Inr (menu @ [name_prompt, Log u], Continue, Suc k, \<lparr>buf = rest, eofbit = False, failbit = False\<rparr>))
    \<and> u_lvl u = INFO
    \<and> u_expr u = ''name='' @ name @ '' liveness=ONLINE last='' @ (if past = [] then ''UNKNOWN'' else ''CRASHED'')
        @ '' current='' @ toString (RecoveryState_of_wire (app_current a))
        @ '' next='' @ toString (RecoveryState_of_wire (app_policy a ! (length past mod length (app_policy a))))
        @ '' attempts='' @ show_nat (length past)"
proof -
  have name: "name \<noteq> []" "list_all (\<lambda>c. c \<noteq> NL) name"
    using assms(1) unfolding assms(5)
    by (auto simp: appA_def appB_def appC_def service_name_def g_MapServiceNames_def NL_def)
  obtain rs d where run: "run_ops (daemon_step env) (life a past client) (snd (daemon_boot env)) = Inr (rs, d)"
    and snap: "getServiceState name (d_sched d) =
        Inr \<lparr>found = True, snap_isOnline = True, snap_lastAction = (if past = [] then UNKNOWN else CRASHED),
             currentAction = RecoveryState_of_wire (app_current a),
             nextAction = RecoveryState_of_wire (app_policy a ! (length past mod length (app_policy a))),
             attemptCount = int (length past)\<rparr>"
    using sample_client_life [OF assms(1-4)] unfolding assms(5) by blast
  let ?u = "LOG_INFO ''SRSC'' ''SNAP'' ''printSnapshot'' 22
     (''name='' @ name @ '' liveness=ONLINE last='' @ (if past = [] then ''UNKNOWN'' else ''CRASHED'')
        @ '' current='' @ toString (RecoveryState_of_wire (app_current a))
        @ '' next='' @ toString (RecoveryState_of_wire (app_policy a ! (length past mod length (app_policy a))))
        @ '' attempts='' @ show_nat (length past))"
  have "printSnapshot (d_sched d) name = Inr (Log ?u)"
    by (simp add: printSnapshot_def snap show_int_nonneg)
  with run iter_named_query [OF name] show ?thesis
    by (intro exI [of _ rs] exI [of _ d] exI [of _ ?u]) (simp add: log_macros del: append.simps run_ops.simps)
qed

definition session_bus :: "(string, string, unit, string \<times> string \<times> string, nat) capi" where
  "session_bus =
     \<lparr>asDBusClientId = Some, getDBusId = Some, isAlive = (\<lambda>_. True), sendPidQuery = (\<lambda>_ _. ErrorReply),
      readNameOwnerChanged = (\<lambda>m. m), runtimeAvailable = True, runtimeRegister = (\<lambda>_ _. True),
      stubAdapterConnection = Some (Some ()), addSignalMemberHandler = (\<lambda>_ _ _ _ _ _. 1)\<rparr>"

theorem console_shows_client_life_witness:
  "\<exists>rs d u. run_ops (daemon_step session_bus)
        (life appB [(Some '':1.3'', ('':1.3'', '':1.3'', [])), (Some '':1.4'', ('':1.4'', '':1.4'', []))] (Some '':1.5''))
        (snd (daemon_boot session_bus)) = Inr (rs, d)
    \<and> console_iter (\<lambda>_. d_sched d) 0
          \<lparr>buf = ''1'' @ [NL] @ ''AppB'' @ [NL] @ [], eofbit = False, failbit = False\<rparr> =
        Inr (menu @ [name_prompt, Log u], Continue, Suc 0, \<lparr>buf = [], eofbit = False, failbit = False\<rparr>)
    \<and> u_expr u = ''name=AppB liveness=ONLINE last=CRASHED current=STOP next=STOP attempts=2''"
proof -
  let ?past = "[(Some '':1.3'', ('':1.3'', '':1.3'', [] :: string)), (Some '':1.4'', ('':1.4'', '':1.4'', []))]"
  have h: "appB \<in> {appA, appB, appC}" "length ?past < 2 ^ 31" by simp_all
  have c: "list_all (incarnation_ok session_bus) ?past" "extractDbusUniqueName session_bus (Some '':1.5'') \<noteq> []"
    "''AppB'' = service_name (app_id appB)"
    by code_simp+
  have v: "RecoveryState_of_wire (app_current appB) = STOP" "show_nat (length ?past) = ''2''"
    "RecoveryState_of_wire (app_policy appB ! (length ?past mod length (app_policy appB))) = STOP"
    by code_simp+
  from console_shows_client_life [OF h(1) c(1,2) h(2) c(3)] obtain rs d u where
      run: "run_ops (daemon_step session_bus) (life appB ?past (Some '':1.5'')) (snd (daemon_boot session_bus)) = Inr (rs, d)"
      and shown: "\<forall>reg k rest. reg k = d_sched d \<longrightarrow>
        console_iter reg k \<lparr>buf = ''1'' @ [NL] @ ''AppB'' @ [NL] @ rest, eofbit = False, failbit = False\<rparr> =
          Inr (menu @ [name_prompt, Log u], Continue, Suc k, \<lparr>buf = rest, eofbit = False, failbit = False\<rparr>)"
      and u: "u_expr u = ''name='' @ ''AppB'' @ '' liveness=ONLINE last='' @ (if ?past = [] then ''UNKNOWN'' else ''CRASHED'')
        @ '' current='' @ toString STOP @ '' next='' @ toString STOP @ '' attempts='' @ ''2''"
    unfolding v by (elim exE conjE) (rule that; assumption)
  have "u_expr u = ''name=AppB liveness=ONLINE last=CRASHED current=STOP next=STOP attempts=2''"
    unfolding u by simp
  with run shown [rule_format, of "\<lambda>_. d_sched d" 0 "[]", OF refl] show ?thesis by (intro exI conjI)
qed

end
